theory Spec2Isabelle
  imports Complex_Main "HOL-Library.AList"
begin

section \<open>JavaScript values\<close>

text \<open>
  The client module \<^verbatim>\<open>frontend/src/lib/api.ts\<close> receives the body of an HTTP response,
  parsed as JSON, and reshapes it. Its behaviour depends on the run-time value it is given,
  not on the TypeScript types it casts to, so the model works on untyped JavaScript values.

  A JavaScript number is a double. The program only compares numbers, rounds them to an
  integer and passes them on, and each of these is exact on doubles; a finite number is
  therefore modelled by its rational value (the two zeros are not distinguished), next to
  the three non-finite numbers.
\<close>

datatype jsnum = NaN | NegInf | Fin rat | PosInf

datatype jsval =
    Undefined
  | Null
  | Bool bool
  | Num jsnum
  | Str string
  | Arr "jsval list"
  | Obj "(string \<times> jsval) list"

text \<open>
  An object is the list of its own properties in enumeration order. A value produced by
  \<^verbatim>\<open>JSON.parse\<close> contains neither \<^verbatim>\<open>undefined\<close> nor \<^verbatim>\<open>NaN\<close>, and the keys
  of each of its objects are distinct.
\<close>

fun is_json :: "jsval \<Rightarrow> bool" where
  "is_json Undefined = False"
| "is_json Null = True"
| "is_json (Bool b) = True"
| "is_json (Num x) = (x \<noteq> NaN)"
| "is_json (Str s) = True"
| "is_json (Arr xs) = (\<forall>x \<in> set xs. is_json x)"
| "is_json (Obj kvs) = (distinct (map fst kvs) \<and> (\<forall>v \<in> snd ` set kvs. is_json v))"

subsection \<open>Numbers\<close>

text \<open>\<^verbatim>\<open>Math.round\<close>: the nearest integer, a tie going to the larger one.\<close>

fun Math_round :: "jsnum \<Rightarrow> jsnum" where
  "Math_round (Fin x) = Fin (of_int \<lfloor>x + 1 / 2\<rfloor>)"
| "Math_round x = x"

fun num_le :: "jsnum \<Rightarrow> jsnum \<Rightarrow> bool" where
  "num_le NaN y = False"
| "num_le x NaN = False"
| "num_le NegInf y = True"
| "num_le x PosInf = True"
| "num_le (Fin a) (Fin b) = (a \<le> b)"
| "num_le x y = False"

text \<open>\<^verbatim>\<open>Math.min\<close> and \<^verbatim>\<open>Math.max\<close> of two arguments: NaN when either is NaN.\<close>

definition Math_min :: "jsnum \<Rightarrow> jsnum \<Rightarrow> jsnum" where
  "Math_min a b = (if a = NaN \<or> b = NaN then NaN else if num_le a b then a else b)"

definition Math_max :: "jsnum \<Rightarrow> jsnum \<Rightarrow> jsnum" where
  "Math_max a b = (if a = NaN \<or> b = NaN then NaN else if num_le a b then b else a)"

subsection \<open>Operators and property access\<close>

text \<open>\<^verbatim>\<open>a ?? b\<close>\<close>

definition nullish :: "jsval \<Rightarrow> jsval \<Rightarrow> jsval" where
  "nullish a b = (if a = Undefined \<or> a = Null then b else a)"

text \<open>\<^verbatim>\<open>Boolean(v)\<close>, and the test made by \<^verbatim>\<open>!v\<close> and \<^verbatim>\<open>v ? _ : _\<close>.\<close>

fun truthy :: "jsval \<Rightarrow> bool" where
  "truthy Undefined = False"
| "truthy Null = False"
| "truthy (Bool b) = b"
| "truthy (Num x) = (x \<noteq> NaN \<and> x \<noteq> Fin 0)"
| "truthy (Str s) = (s \<noteq> [])"
| "truthy (Arr xs) = True"
| "truthy (Obj kvs) = True"

text \<open>
  \<^verbatim>\<open>v.k\<close> and \<^verbatim>\<open>v['k']\<close> on a value that is neither null nor undefined. The names this
  program reads (\<^verbatim>\<open>taskId id fileId state status meta percent ready successful result data
  detail p50 p75 p90 median n count stack tech\<close>) are not array indices and are not defined on
  any built-in prototype, so they are found on an object that has them as its own property
  and are undefined everywhere else.
\<close>

fun get :: "jsval \<Rightarrow> string \<Rightarrow> jsval" where
  "get (Obj kvs) k = (case map_of kvs k of Some v \<Rightarrow> v | None \<Rightarrow> Undefined)"
| "get v k = Undefined"

text \<open>\<^verbatim>\<open>v?.k\<close>\<close>

definition opt_get :: "jsval \<Rightarrow> string \<Rightarrow> jsval" where
  "opt_get v k = (if v = Undefined \<or> v = Null then Undefined else get v k)"

text \<open>Decimal rendering of a natural number (an array index used as a key, a status code).\<close>

fun show_nat :: "nat \<Rightarrow> string" where
  "show_nat n =
     (if n < 10 then [''0123456789'' ! n]
      else show_nat (n div 10) @ [''0123456789'' ! (n mod 10)])"

declare show_nat.simps [simp del]

text \<open>
  The own enumerable properties that \<^verbatim>\<open>Object.entries(v)\<close> lists and that the spread
  \<^verbatim>\<open>{...v}\<close> copies: the properties of an object, the elements of an array and the
  characters of a string under their indices, nothing for a number or a boolean. Spreading
  null or undefined copies nothing; \<^verbatim>\<open>Object.entries\<close> is only called on \<^verbatim>\<open>obj ?? {}\<close>.
  (The runtime indexes a string by UTF-16 units, the model by its 8-bit characters; the two
  agree on ASCII strings, and no statement below reads an indexed character.)
\<close>

fun ownProps :: "jsval \<Rightarrow> (string \<times> jsval) list" where
  "ownProps (Obj kvs) = kvs"
| "ownProps (Arr xs) = zip (map show_nat [0..<length xs]) xs"
| "ownProps (Str s) = zip (map show_nat [0..<length s]) (map (\<lambda>c. Str [c]) s)"
| "ownProps v = []"

text \<open>
  \<^verbatim>\<open>Object.fromEntries\<close>: a key that comes again overwrites the value and keeps the place
  of its first occurrence. (The runtime enumerates index-like keys before the others; the
  program never enumerates an object it has built, only looks names up in it.)
\<close>

definition fromEntries :: "(string \<times> jsval) list \<Rightarrow> (string \<times> jsval) list" where
  "fromEntries es = foldl (\<lambda>obj (k, v). AList.update k v obj) [] es"

subsection \<open>Strings\<close>

text \<open>
  Strings are lists of 8-bit characters: an ASCII string is the list of its characters.
  \<open>upper_char\<close> is the upper-casing of one ASCII character.
\<close>

definition upper_char :: "char \<Rightarrow> char" where
  "upper_char c =
     (case map_of (zip ''abcdefghijklmnopqrstuvwxyz'' ''ABCDEFGHIJKLMNOPQRSTUVWXYZ'') c of
        Some u \<Rightarrow> u | None \<Rightarrow> c)"

definition is_ascii :: "string \<Rightarrow> bool" where
  "is_ascii s = list_all (\<lambda>c. (of_char c :: nat) < 128) s"

text \<open>
  \<^verbatim>\<open>s.toUpperCase()\<close>. On an ASCII string it upper-cases the letters a to z and leaves
  every other character. On a string with other characters it follows the Unicode case
  mapping of the runtime (\<^verbatim>\<open>'caf\u00e9'\<close> becomes \<^verbatim>\<open>'CAF\u00c9'\<close>, a sharp s becomes
  \<^verbatim>\<open>'SS'\<close>), which is the parameter \<open>unicode_upper\<close> of the model.
\<close>

definition toUpperCase :: "(string \<Rightarrow> string) \<Rightarrow> string \<Rightarrow> string" where
  "toUpperCase unicode_upper s = (if is_ascii s then map upper_char s else unicode_upper s)"

text \<open>The regular-expression class \<^verbatim>\<open>\w\<close>.\<close>

definition is_word_char :: "char \<Rightarrow> bool" where
  "is_word_char c =
     (c \<in> set ''abcdefghijklmnopqrstuvwxyzABCDEFGHIJKLMNOPQRSTUVWXYZ0123456789_'')"

text \<open>\<^verbatim>\<open>ct.includes(sub)\<close>\<close>

fun starts_with :: "string \<Rightarrow> string \<Rightarrow> bool" where
  "starts_with s [] = True"
| "starts_with [] (c # cs) = False"
| "starts_with (d # ds) (c # cs) = (d = c \<and> starts_with ds cs)"

fun includes_str :: "string \<Rightarrow> string \<Rightarrow> bool" where
  "includes_str [] sub = (sub = [])"
| "includes_str (c # cs) sub = (starts_with (c # cs) sub \<or> includes_str cs sub)"

section \<open>Normalizers\<close>

text \<open>
  \<^verbatim>\<open>const toCamel = (s: string) => s.replace(/[_-](\w)/g, (_, c: string) => c.toUpperCase());\<close>

  The scan goes from left to right; after a match it resumes behind the two characters
  matched. The character captured by \<^verbatim>\<open>\w\<close> is an ASCII one, so \<open>upper_char\<close> is its
  \<^verbatim>\<open>toUpperCase()\<close>.
\<close>

fun toCamel :: "string \<Rightarrow> string" where
  "toCamel (a # b # cs) =
     (if (a = CHR ''_'' \<or> a = CHR ''-'') \<and> is_word_char b
      then upper_char b # toCamel cs
      else a # toCamel (b # cs))"
| "toCamel cs = cs"

text \<open>
  \<^verbatim>\<open>const normalizeKeys = (obj: Record<string, unknown>) =>
  Object.fromEntries(Object.entries(obj ?? {}).map(([k, v]) => [toCamel(k), v]));\<close>
\<close>

definition normalizeKeys :: "jsval \<Rightarrow> jsval" where
  "normalizeKeys obj =
     Obj (fromEntries (map (\<lambda>(k, v). (toCamel k, v)) (ownProps (nullish obj (Obj [])))))"

datatype error =
    ApiError string nat jsval
  | Error string
  | TypeError
  | SyntaxError
  | AbortError

text \<open>
  The fields of \<^verbatim>\<open>ApiError\<close> are its message, its \<^verbatim>\<open>status\<close> and its \<^verbatim>\<open>payload\<close>.
  \<^verbatim>\<open>Error\<close> carries the message of a plain \<^verbatim>\<open>new Error(...)\<close>. A TypeError is what the
  runtime raises when a property of null or undefined is read, when a value that is not a
  function is called, or when an object cannot be converted to a primitive; it is also what
  a read of the body rejects with when the network fails. A SyntaxError is what
  \<^verbatim>\<open>res.json()\<close> rejects with on a body that is not JSON, an AbortError what a read of
  the body rejects with when the request is aborted meanwhile.
\<close>

record UploadResponse =
  fileId :: jsval

record MapResponse =
  taskId :: jsval

text \<open>
  \<^verbatim>\<open>TaskStatusResp\<close>. The field \<^verbatim>\<open>id\<close> is called \<open>id'\<close> here. The casts of the source
  (\<^verbatim>\<open>as string\<close>, \<^verbatim>\<open>as CeleryState\<close>) do nothing at run time, so \<open>id'\<close>, \<open>meta\<close> and
  \<open>result\<close> hold whatever value the payload gave.
\<close>

record TaskStatusResp =
  id' :: jsval
  state :: string
  meta :: jsval
  ready :: bool
  successful :: bool
  result :: jsval

text \<open>
  \<^verbatim>\<open>function normalizeUpload(raw) {
    const n = normalizeKeys(raw) as { fileId?: string };
    if (!n.fileId) throw new Error('Invalid upload response');
    return { fileId: n.fileId };
  }\<close>
\<close>

definition normalizeUpload :: "jsval \<Rightarrow> error + UploadResponse" where
  "normalizeUpload raw =
     (let n = normalizeKeys raw in
      if \<not> truthy (get n ''fileId'') then Inl (Error ''Invalid upload response'')
      else Inr \<lparr>fileId = get n ''fileId''\<rparr>)"

text \<open>
  \<^verbatim>\<open>function normalizeMap(raw) {
    const n = normalizeKeys(raw) as { taskId?: string; id?: string };
    const taskId = n.taskId ?? n.id;
    if (!taskId) throw new Error('Invalid map response');
    return { taskId };
  }\<close>
\<close>

definition normalizeMap :: "jsval \<Rightarrow> error + MapResponse" where
  "normalizeMap raw =
     (let n = normalizeKeys raw;
          t = nullish (get n ''taskId'') (get n ''id'')
      in if \<not> truthy t then Inl (Error ''Invalid map response'')
         else Inr \<lparr>taskId = t\<rparr>)"

text \<open>
  \<^verbatim>\<open>function normalizeTaskStatus(raw) {
    const n = normalizeKeys(raw) as NormalizedTask;
    const p = n.meta?.percent;
    const bounded = typeof p === 'number' ? Math.max(0, Math.min(100, Math.round(p))) : undefined;
    return {
      id: (n.taskId ?? n.id ?? '') as string,
      state: (n.state ?? n.status ?? 'PENDING').toUpperCase() as CeleryState,
      meta: n.meta ? { ...n.meta, percent: bounded } : undefined,
      ready: Boolean(n.ready),
      successful: Boolean(n.successful),
      result: n.result,
    };
  }\<close>

  Only \<^verbatim>\<open>.toUpperCase()\<close> can throw: it is called on whatever \<^verbatim>\<open>state\<close> or
  \<^verbatim>\<open>status\<close> holds, and a value that is not a string has no such method.
\<close>

definition bounded_percent :: "jsval \<Rightarrow> jsval" where
  "bounded_percent p =
     (case p of
        Num x \<Rightarrow> Num (Math_max (Fin 0) (Math_min (Fin 100) (Math_round x)))
      | _ \<Rightarrow> Undefined)"

definition normalizeTaskStatus :: "(string \<Rightarrow> string) \<Rightarrow> jsval \<Rightarrow> error + TaskStatusResp" where
  "normalizeTaskStatus unicode_upper raw =
     (let n = normalizeKeys raw;
          p = opt_get (get n ''meta'') ''percent'';
          bounded = bounded_percent p
      in case nullish (get n ''state'') (nullish (get n ''status'') (Str ''PENDING'')) of
           Str s \<Rightarrow>
             Inr \<lparr>id' = nullish (get n ''taskId'') (nullish (get n ''id'') (Str [])),
                  state = toUpperCase unicode_upper s,
                  meta = (if truthy (get n ''meta'')
                          then Obj (AList.update ''percent'' bounded
                                      (fromEntries (ownProps (get n ''meta''))))
                          else Undefined),
                  ready = truthy (get n ''ready''),
                  successful = truthy (get n ''successful''),
                  result = get n ''result''\<rparr>
         | _ \<Rightarrow> Inl TypeError)"

section \<open>HTTP\<close>

text \<open>
  What \<^verbatim>\<open>fetch\<close> resolved with: the status line, the \<^verbatim>\<open>content-type\<close> header if there
  is one, and what the two ways of reading the body settle with. \<^verbatim>\<open>res.text()\<close> gives the
  text, or rejects when the read is aborted or cut off; \<^verbatim>\<open>res.json()\<close> gives the parsed
  value, or rejects for the same reasons and when the text is not JSON. The program reads the
  body of a response once, one way or the other.
\<close>

record response =
  status :: nat
  statusText :: string
  content_type :: "string option"
  body_text :: "error + string"
  body_json :: "error + jsval"

text \<open>\<^verbatim>\<open>res.ok\<close>\<close>

definition ok :: "response \<Rightarrow> bool" where
  "ok res = (200 \<le> status res \<and> status res \<le> 299)"

text \<open>
  \<^verbatim>\<open>function getErrorDetail(payload: unknown): string {
    if (payload && typeof payload === 'object' && 'detail' in payload) {
      const d = payload['detail'];
      if (typeof d === 'string') return d;
    }
    if (typeof payload === 'string') return payload;
    try { return JSON.stringify(payload); } catch { return ''; }
  }\<close>

  \<^verbatim>\<open>JSON.stringify\<close> belongs to the runtime and is a parameter of the model. It returns
  a string on every payload that reaches it here (a parsed JSON value), so the handler of
  the \<^verbatim>\<open>try\<close> is never entered.
\<close>

definition getErrorDetail :: "(jsval \<Rightarrow> string) \<Rightarrow> jsval \<Rightarrow> string" where
  "getErrorDetail stringify payload =
     (case (case payload of Obj kvs \<Rightarrow> map_of kvs ''detail'' | _ \<Rightarrow> None) of
        Some (Str d) \<Rightarrow> d
      | _ \<Rightarrow> (case payload of Str s \<Rightarrow> s | _ \<Rightarrow> stringify payload))"

text \<open>
  \<^verbatim>\<open>async function requestJson<T>(path, { method = 'GET', body, headers, signal } = {}) {
    const url = `${API_BASE}/${joinUrl(path)}`;
    const res = await fetch(url, { method, body, headers, signal });
    const ct = res.headers.get('content-type') || '';
    const isJson = ct.includes('application/json');
    if (!res.ok) {
      const payload: unknown = isJson ? await res.json().catch(() => ({})) : await res.text();
      const detail = getErrorDetail(payload);
      const msg = `[${res.status}] ${res.statusText}${detail ? ` - ${detail}` : ''}`;
      throw new ApiError(msg, res.status, payload);
    }
    return (await res.json()) as T;
  }\<close>

  The model starts from the response that \<^verbatim>\<open>fetch\<close> resolved with; \<open>ct_header\<close> is
  \<^verbatim>\<open>res.headers.get('content-type') || ''\<close>. On a failed
  response, a rejection of \<^verbatim>\<open>res.json()\<close> is caught and replaced by the empty object; a
  rejection of \<^verbatim>\<open>res.text()\<close> is not caught and leaves \<^verbatim>\<open>requestJson\<close> in place of
  the \<^verbatim>\<open>ApiError\<close>.
\<close>

definition ct_header :: "response \<Rightarrow> string" where
  "ct_header res = (case content_type res of Some c \<Rightarrow> c | None \<Rightarrow> [])"

definition error_payload :: "response \<Rightarrow> error + jsval" where
  "error_payload res =
     (let ct = ct_header res;
          isJson = includes_str ct ''application/json''
      in if isJson then (case body_json res of Inr v \<Rightarrow> Inr v | Inl e \<Rightarrow> Inr (Obj []))
         else (case body_text res of Inr t \<Rightarrow> Inr (Str t) | Inl e \<Rightarrow> Inl e))"

definition requestJson :: "(jsval \<Rightarrow> string) \<Rightarrow> response \<Rightarrow> error + jsval" where
  "requestJson stringify res =
     (if \<not> ok res then
        (case error_payload res of
           Inl e \<Rightarrow> Inl e
         | Inr payload \<Rightarrow>
             (let detail = getErrorDetail stringify payload;
                  msg = ''['' @ show_nat (status res) @ ''] '' @ statusText res
                        @ (if detail \<noteq> [] then '' - '' @ detail else [])
              in Inl (ApiError msg (status res) payload)))
      else body_json res)"

section \<open>Endpoints\<close>

definition uploadFile :: "(jsval \<Rightarrow> string) \<Rightarrow> response \<Rightarrow> error + UploadResponse" where
  "uploadFile stringify res =
     (case requestJson stringify res of Inl e \<Rightarrow> Inl e | Inr raw \<Rightarrow> normalizeUpload raw)"

definition mapColumns :: "(jsval \<Rightarrow> string) \<Rightarrow> response \<Rightarrow> error + MapResponse" where
  "mapColumns stringify res =
     (case requestJson stringify res of Inl e \<Rightarrow> Inl e | Inr raw \<Rightarrow> normalizeMap raw)"

definition taskStatus ::
  "(string \<Rightarrow> string) \<Rightarrow> (jsval \<Rightarrow> string) \<Rightarrow> response \<Rightarrow> error + TaskStatusResp" where
  "taskStatus unicode_upper stringify res =
     (case requestJson stringify res of
        Inl e \<Rightarrow> Inl e
      | Inr raw \<Rightarrow> normalizeTaskStatus unicode_upper raw)"

text \<open>
  \<^verbatim>\<open>const num = (v: unknown, fallback = 0) => (typeof v === 'number' ? v : Number(v ?? fallback));\<close>

  \<^verbatim>\<open>Number(v)\<close> is undefined \<open>\<mapsto>\<close> NaN, null \<open>\<mapsto>\<close> 0, false \<open>\<mapsto>\<close> 0, true \<open>\<mapsto>\<close> 1 and
  the identity on a number. On a string it parses the text, and on an array or an object it
  first converts the value to a primitive, which may raise a TypeError (an object that has
  an own property \<^verbatim>\<open>toString\<close>, for one). That part of the runtime is the parameter
  \<open>conv\<close> of the model.
\<close>

definition ToNumber :: "(jsval \<Rightarrow> error + jsnum) \<Rightarrow> jsval \<Rightarrow> error + jsnum" where
  "ToNumber conv v =
     (case v of
        Undefined \<Rightarrow> Inr NaN
      | Null \<Rightarrow> Inr (Fin 0)
      | Bool b \<Rightarrow> Inr (Fin (if b then 1 else 0))
      | Num x \<Rightarrow> Inr x
      | _ \<Rightarrow> conv v)"

definition num :: "(jsval \<Rightarrow> error + jsnum) \<Rightarrow> jsval \<Rightarrow> jsnum \<Rightarrow> error + jsnum" where
  "num conv v fallback =
     (case v of Num x \<Rightarrow> Inr x | _ \<Rightarrow> ToNumber conv (nullish v (Num fallback)))"

text \<open>
  \<^verbatim>\<open>SalarySummary\<close>; its field \<^verbatim>\<open>n\<close> is called \<open>n'\<close> here. The fields \<^verbatim>\<open>p50\<close> and
  \<^verbatim>\<open>n\<close> of \<^verbatim>\<open>StackCompareRow\<close> are called \<open>p50_row\<close> and \<open>n_row\<close>.
\<close>

record SalarySummary =
  p50 :: jsnum
  p75 :: jsnum
  p90 :: jsnum
  n' :: jsnum

record StackCompareRow =
  stack :: string
  p50_row :: jsnum
  n_row :: jsnum

text \<open>
  \<^verbatim>\<open>const container = (raw?.data) ?? raw ?? {};\<close> in \<^verbatim>\<open>salarySummary\<close>.
\<close>

definition container :: "jsval \<Rightarrow> jsval" where
  "container raw = nullish (opt_get raw ''data'') (nullish raw (Obj []))"

text \<open>
  \<^verbatim>\<open>export async function salarySummary(signal) {
    const raw = await requestJson<RawSalarySummary>(`${ANALYTICS}/salary/summary`, ...);
    const container = (raw?.data) ?? raw ?? {};
    const num = ...;
    return {
      p50: num(container['p50'] ?? container['median'], 0),
      p75: num(container['p75'], 0),
      p90: num(container['p90'], 0),
      n: num(container['n'] ?? container['count'], 0),
    };
  }\<close>

  The four fields are computed in this order, and the first conversion that throws ends the
  call.
\<close>

definition salarySummary ::
  "(jsval \<Rightarrow> error + jsnum) \<Rightarrow> (jsval \<Rightarrow> string) \<Rightarrow> response \<Rightarrow> error + SalarySummary" where
  "salarySummary conv stringify res =
     (case requestJson stringify res of
        Inl e \<Rightarrow> Inl e
      | Inr raw \<Rightarrow>
          (let c = container raw in
           case num conv (nullish (get c ''p50'') (get c ''median'')) (Fin 0) of
             Inl e \<Rightarrow> Inl e
           | Inr a \<Rightarrow>
          (case num conv (get c ''p75'') (Fin 0) of
             Inl e \<Rightarrow> Inl e
           | Inr b \<Rightarrow>
          (case num conv (get c ''p90'') (Fin 0) of
             Inl e \<Rightarrow> Inl e
           | Inr d \<Rightarrow>
          (case num conv (nullish (get c ''n'') (get c ''count'')) (Fin 0) of
             Inl e \<Rightarrow> Inl e
           | Inr m \<Rightarrow> Inr \<lparr>p50 = a, p75 = b, p90 = d, n' = m\<rparr>)))))"

text \<open>
  The callback that \<^verbatim>\<open>stackCompare\<close> maps over the array:

  \<^verbatim>\<open>(r) => {
    const row = r as RawStackCompareRow;
    const stack =
      typeof row.stack === 'string' ? row.stack : typeof row.tech === 'string' ? row.tech : '-';
    const p50 =
      typeof row.p50 === 'number' ? row.p50
        : typeof row.median === 'number' ? row.median
        : Number((row.p50 as unknown) ?? (row.median as unknown) ?? 0);
    const n =
      typeof row.n === 'number' ? row.n
        : typeof row.count === 'number' ? row.count
        : Number((row.n as unknown) ?? (row.count as unknown) ?? 0);
    return { stack: String(stack), p50: Number(p50), n: Number(n) };
  }\<close>

  Reading \<^verbatim>\<open>row.stack\<close> raises a TypeError when the element is null or undefined.
  \<^verbatim>\<open>String\<close> of a string and \<^verbatim>\<open>Number\<close> of a number return their argument.
\<close>

definition number_of_fields ::
  "(jsval \<Rightarrow> error + jsnum) \<Rightarrow> jsval \<Rightarrow> jsval \<Rightarrow> error + jsnum" where
  "number_of_fields conv a b =
     (case a of
        Num x \<Rightarrow> Inr x
      | _ \<Rightarrow> (case b of
                Num y \<Rightarrow> Inr y
              | _ \<Rightarrow> ToNumber conv (nullish a (nullish b (Num (Fin 0))))))"

definition stackCompare_row :: "(jsval \<Rightarrow> error + jsnum) \<Rightarrow> jsval \<Rightarrow> error + StackCompareRow" where
  "stackCompare_row conv row =
     (if row = Undefined \<or> row = Null then Inl TypeError
      else
        (let st = (case get row ''stack'' of
                     Str s \<Rightarrow> s
                   | _ \<Rightarrow> (case get row ''tech'' of Str t \<Rightarrow> t | _ \<Rightarrow> ''-''))
         in case number_of_fields conv (get row ''p50'') (get row ''median'') of
              Inl e \<Rightarrow> Inl e
            | Inr p \<Rightarrow>
                (case number_of_fields conv (get row ''n'') (get row ''count'') of
                   Inl e \<Rightarrow> Inl e
                 | Inr m \<Rightarrow> Inr \<lparr>stack = st, p50_row = p, n_row = m\<rparr>)))"

text \<open>\<^verbatim>\<open>Array.prototype.map\<close> with a callback that may throw: the first throw ends the call.\<close>

fun map_err :: "('a \<Rightarrow> error + 'b) \<Rightarrow> 'a list \<Rightarrow> error + 'b list" where
  "map_err f [] = Inr []"
| "map_err f (x # xs) =
     (case f x of
        Inl e \<Rightarrow> Inl e
      | Inr y \<Rightarrow> (case map_err f xs of Inl e \<Rightarrow> Inl e | Inr ys \<Rightarrow> Inr (y # ys)))"

text \<open>
  \<^verbatim>\<open>export async function stackCompare(signal) {
    const raw = await requestJson<RawStackCompare>(`${ANALYTICS}/stack/compare`, ...);
    // Accept either { data: [...] } or [...]
    const container = raw as { data?: unknown } | unknown;
    const maybeArr = (container as { data?: unknown })?.data ?? container;
    if (!Array.isArray(maybeArr)) return [];
    return (maybeArr as unknown[]).map((r) => { ... });
  }\<close>
\<close>

definition maybeArr :: "jsval \<Rightarrow> jsval" where
  "maybeArr raw = nullish (opt_get raw ''data'') raw"

definition stackCompare ::
  "(jsval \<Rightarrow> error + jsnum) \<Rightarrow> (jsval \<Rightarrow> string) \<Rightarrow> response \<Rightarrow> error + StackCompareRow list" where
  "stackCompare conv stringify res =
     (case requestJson stringify res of
        Inl e \<Rightarrow> Inl e
      | Inr raw \<Rightarrow>
          (case maybeArr raw of
             Arr rows \<Rightarrow> map_err (stackCompare_row conv) rows
           | _ \<Rightarrow> Inr []))"

section \<open>Analytics Aggregator\<close>

text \<open>
  The Analytics Aggregator of the backend, which computes the salary summary that the
  endpoint \<^verbatim>\<open>analytics/salary/summary\<close> serves, is not among the sources; only its client
  \<^verbatim>\<open>salarySummary\<close> is. The three definitions of this section follow the specification.
\<close>





section \<open>Concrete inputs\<close>

text \<open>
  Stand-ins for the three parameters (the runtime's \<^verbatim>\<open>JSON.stringify\<close>, its conversion
  of strings and objects to numbers, its case mapping of non-ASCII strings) at the concrete
  inputs below; none of the results computed there depends on them.
\<close>

definition some_stringify :: "jsval \<Rightarrow> string" where
  "some_stringify v = ''null''"

definition some_conv :: "jsval \<Rightarrow> error + jsnum" where
  "some_conv v = Inr NaN"

definition some_upper :: "string \<Rightarrow> string" where
  "some_upper s = s"

text \<open>
  The helper of the test suite, \<^verbatim>\<open>jsonResponse(body, init)\<close>: a response with the given
  status whose content type is \<^verbatim>\<open>application/json\<close> and whose body is the given value.
  With that content type the program reads the body through \<^verbatim>\<open>res.json()\<close> only, never as
  text.
\<close>

definition jsonResponse :: "jsval \<Rightarrow> nat \<Rightarrow> response" where
  "jsonResponse body st =
     \<lparr>status = st, statusText = [], content_type = Some ''application/json'',
      body_text = Inr (some_stringify body), body_json = Inr body\<rparr>"

text \<open>
  The other response of the test suite,
  \<^verbatim>\<open>new Response('boom', { status: 500, headers: { 'content-type': 'text/plain' } })\<close>:
  a text body, which does not parse as JSON.
\<close>

definition textResponse :: "string \<Rightarrow> nat \<Rightarrow> response" where
  "textResponse body st =
     \<lparr>status = st, statusText = [], content_type = Some ''text/plain'',
      body_text = Inr body, body_json = Inl SyntaxError\<rparr>"

text \<open>
  A gateway error: the status 502 with the content type \<^verbatim>\<open>application/json\<close> and a body
  that is a page of markup, not JSON.
\<close>

definition gateway_response :: response where
  "gateway_response =
     \<lparr>status = 502, statusText = ''Bad Gateway'', content_type = Some ''application/json'',
      body_text = Inr ''<html>'', body_json = Inl SyntaxError\<rparr>"

text \<open>
  What \<^verbatim>\<open>ct.includes(sub)\<close> is specified to decide: \<open>sub\<close> occurs in \<open>ct\<close>.
\<close>

definition occurs_in :: "string \<Rightarrow> string \<Rightarrow> bool" where
  "occurs_in sub ct = (\<exists>before after. ct = before @ sub @ after)"

text \<open>
  The status and the payload of the \<^verbatim>\<open>ApiError\<close> that a call threw, if it threw one; and
  the statement that each of the five endpoints throws an \<^verbatim>\<open>ApiError\<close> with a given status
  and payload.
\<close>

definition api_error_of :: "error + 'a \<Rightarrow> (nat \<times> jsval) option" where
  "api_error_of outcome =
     (case outcome of Inl (ApiError msg st payload) \<Rightarrow> Some (st, payload) | _ \<Rightarrow> None)"

definition each_endpoint_throws ::
  "(string \<Rightarrow> string) \<Rightarrow> (jsval \<Rightarrow> error + jsnum) \<Rightarrow> (jsval \<Rightarrow> string) \<Rightarrow> response
     \<Rightarrow> nat \<Rightarrow> jsval \<Rightarrow> bool" where
  "each_endpoint_throws unicode_upper conv stringify res st payload =
     (api_error_of (uploadFile stringify res) = Some (st, payload)
      \<and> api_error_of (mapColumns stringify res) = Some (st, payload)
      \<and> api_error_of (taskStatus unicode_upper stringify res) = Some (st, payload)
      \<and> api_error_of (salarySummary conv stringify res) = Some (st, payload)
      \<and> api_error_of (stackCompare conv stringify res) = Some (st, payload))"

text \<open>
  The names that \<open>toCamel\<close> maps to \<^verbatim>\<open>taskId\<close>.
\<close>

definition taskId_names :: "string set" where
  "taskId_names = {''task_id'', ''task-id'', ''task_Id'', ''task-Id'', ''taskId''}"

text \<open>
  The value of the last property in the list whose name satisfies \<open>P\<close>; undefined when
  there is none.
\<close>

definition last_field :: "(string \<Rightarrow> bool) \<Rightarrow> (string \<times> jsval) list \<Rightarrow> jsval" where
  "last_field P es = foldl (\<lambda>acc (k, v). if P k then v else acc) Undefined es"

text \<open>
  The canonical lifecycle names of the specification, and the lower-case ASCII letters
  (used to describe the keys that \<open>toCamel\<close> leaves alone).
\<close>

definition canonical_states :: "string list" where
  "canonical_states = [''PENDING'', ''RUNNING'', ''SUCCESS'', ''FAILED'', ''CANCELLED'', ''RETRY'']"

definition is_lower :: "char \<Rightarrow> bool" where
  "is_lower c = (c \<in> set ''abcdefghijklmnopqrstuvwxyz'')"

text \<open>
  Task-status payloads: the one of the test suite (\<^verbatim>\<open>status: 'started'\<close>, a percentage
  of 105), one that reports a pending task as ready and successful, and one whose percentage
  is text.
\<close>

definition started_payload :: jsval where
  "started_payload =
     Obj [(''task_id'', Str ''t-1''), (''status'', Str ''started''),
          (''meta'', Obj [(''percent'', Num (Fin 105)), (''processed'', Num (Fin 5)),
                          (''total'', Num (Fin 10))]),
          (''ready'', Bool False), (''successful'', Bool False)]"

definition pending_payload :: jsval where
  "pending_payload =
     Obj [(''state'', Str ''PENDING''), (''ready'', Bool True), (''successful'', Bool True)]"

definition text_percent_payload :: jsval where
  "text_percent_payload = Obj [(''state'', Str ''PROGRESS''), (''meta'', Obj [(''percent'', Str ''50'')])]"

text \<open>
  Map responses: the one of the test suite, one that names the task in kebab case, one with
  a null \<^verbatim>\<open>task_id\<close> and an \<^verbatim>\<open>id\<close>, and one that names no task.
\<close>

definition map_payload :: jsval where
  "map_payload = Obj [(''task_id'', Str ''task-1'')]"

definition kebab_payload :: jsval where
  "kebab_payload = Obj [(''task-id'', Str ''task-1'')]"

definition id_payload :: jsval where
  "id_payload = Obj [(''task_id'', Null), (''id'', Str ''task-2'')]"

definition no_task_payload :: jsval where
  "no_task_payload = Obj [(''file_id'', Str ''file-1'')]"

text \<open>
  Payloads of the test suite: an error body with a \<^verbatim>\<open>detail\<close>, the summary fields with
  \<^verbatim>\<open>median\<close> and \<^verbatim>\<open>count\<close> in place of \<^verbatim>\<open>p50\<close> and \<^verbatim>\<open>n\<close>, and the rows of a
  stack comparison; and a summary with a negative median salary.
\<close>

definition detail_payload :: jsval where
  "detail_payload = Obj [(''detail'', Str ''invalid file'')]"

definition nested_summary_fields :: "(string \<times> jsval) list" where
  "nested_summary_fields =
     [(''median'', Num (Fin 50)), (''p75'', Num (Fin 70)), (''p90'', Num (Fin 90)),
      (''count'', Num (Fin 10))]"

definition negative_payload :: jsval where
  "negative_payload =
     Obj [(''p50'', Num (Fin (- 5))), (''p75'', Num (Fin 70)), (''p90'', Num (Fin 90)),
          (''n'', Num (Fin 10))]"

definition compare_payload :: jsval where
  "compare_payload =
     Obj [(''data'', Arr [Obj [(''stack'', Str ''react''), (''p50'', Num (Fin 50)), (''n'', Num (Fin 10))],
                          Obj [(''tech'', Str ''vue''), (''median'', Num (Fin 45)), (''count'', Num (Fin 8))]])]"

text \<open>
  A finite number that is not negative; and a payload field that holds such a number or is
  absent or null.
\<close>

definition finite_nonneg :: "jsnum \<Rightarrow> bool" where
  "finite_nonneg x = (case x of Fin q \<Rightarrow> 0 \<le> q | _ \<Rightarrow> False)"

definition finite_nonneg_or_absent :: "jsval \<Rightarrow> bool" where
  "finite_nonneg_or_absent v =
     (case v of Undefined \<Rightarrow> True | Null \<Rightarrow> True | Num x \<Rightarrow> finite_nonneg x | _ \<Rightarrow> False)"

section \<open>Percentiles of the aggregator\<close>




section \<open>Rows of the stack comparison\<close>

text \<open>
  Claim C9. For every JSON payload of a successful response \<^verbatim>\<open>stackCompare\<close> should return
  an array without throwing. On the payload \<^verbatim>\<open>[null]\<close> it does not: the callback reads
  \<^verbatim>\<open>row.stack\<close> of the null element, which raises a TypeError.
\<close>

theorem stackCompare_null_row:
  "stackCompare conv stringify (jsonResponse (Arr [Null]) 200) = Inl TypeError"
  by (simp add: stackCompare_def requestJson_def jsonResponse_def ok_def maybeArr_def
      opt_get_def nullish_def stackCompare_row_def)

section \<open>Keys after normalisation\<close>

lemma fromEntries_Nil: "fromEntries [] = []"
  by (simp add: fromEntries_def)

lemma fromEntries_snoc: "fromEntries (es @ [(k, v)]) = AList.update k v (fromEntries es)"
  by (simp add: fromEntries_def)

lemma map_of_fromEntries_None: "(map_of (fromEntries es) k = None) = (k \<notin> fst ` set es)"
proof (induction es rule: rev_induct)
  case Nil
  show ?case by (simp add: fromEntries_Nil)
next
  case (snoc e es)
  obtain a v where e: "e = (a, v)" by (cases e)
  show ?case using snoc by (auto simp: e fromEntries_snoc update_conv')
qed

lemma map_of_fromEntries_Some: "map_of (fromEntries es) k = Some v \<Longrightarrow> (k, v) \<in> set es"
proof (induction es rule: rev_induct)
  case Nil
  then show ?case by (simp add: fromEntries_Nil)
next
  case (snoc e es)
  obtain a w where e: "e = (a, w)" by (cases e)
  show ?case using snoc by (auto simp: e fromEntries_snoc update_conv' split: if_splits)
qed

lemma upper_not_lower: "is_word_char b \<Longrightarrow> \<not> is_lower (upper_char b)"
  unfolding is_word_char_def is_lower_def upper_char_def by auto

lemma lower_not_sep: "is_lower a \<Longrightarrow> a \<noteq> CHR ''_'' \<and> a \<noteq> CHR ''-''"
  unfolding is_lower_def by auto

lemma toCamel_lower_id: "\<forall>c \<in> set k. is_lower c \<Longrightarrow> toCamel k = k"
  by (induction k rule: toCamel.induct) (auto dest: lower_not_sep)

lemma toCamel_lower_inj: "toCamel s = k \<Longrightarrow> \<forall>c \<in> set k. is_lower c \<Longrightarrow> s = k"
proof (induction s arbitrary: k rule: toCamel.induct)
  case (1 a b cs)
  show ?case
  proof (cases "(a = CHR ''_'' \<or> a = CHR ''-'') \<and> is_word_char b")
    case True
    with 1(3) have "k = upper_char b # toCamel cs" by simp
    with 1(4) have "is_lower (upper_char b)" by simp
    with True show ?thesis using upper_not_lower by blast
  next
    case False
    with 1(3) have k: "k = a # toCamel (b # cs)" by auto
    with 1(4) have "\<forall>c \<in> set (toCamel (b # cs)). is_lower c" by simp
    with 1(2)[OF False refl] have "b # cs = toCamel (b # cs)" by simp
    with k show ?thesis by simp
  qed
qed simp_all

lemma toCamel_eq_lower: "\<forall>c \<in> set k. is_lower c \<Longrightarrow> (toCamel s = k) = (s = k)"
  using toCamel_lower_inj toCamel_lower_id by blast

lemma show_nat_last: "show_nat m \<noteq> [] \<and> last (show_nat m) \<in> set ''0123456789''"
proof -
  have d: "''0123456789'' ! (i::nat) \<in> set ''0123456789''" if "i < 10" for i
    using that nth_mem[of i "''0123456789''"] by simp
  show ?thesis
  proof (cases "m < 10")
    case True
    then show ?thesis using d[of m] by (subst (1 2) show_nat.simps) simp
  next
    case False
    then show ?thesis using d[of "m mod 10"] by (subst (1 2) show_nat.simps) simp
  qed
qed

lemma show_nat_not_lower: "k \<noteq> [] \<Longrightarrow> \<forall>c \<in> set k. is_lower c \<Longrightarrow> show_nat m \<noteq> k"
proof
  assume k: "k \<noteq> []" "\<forall>c \<in> set k. is_lower c" and e: "show_nat m = k"
  from k have "is_lower (last k)" by simp
  moreover from e show_nat_last[of m] have "last k \<in> set ''0123456789''" by simp
  ultimately show False unfolding is_lower_def by auto
qed


lemma map_of_fromEntries_camel:
  assumes "distinct (map fst kvs)" "\<forall>c \<in> set k. is_lower c"
  shows "map_of (fromEntries (map (\<lambda>(a, v). (toCamel a, v)) kvs)) k = map_of kvs k"
  using assms(1)
proof (induction kvs rule: rev_induct)
  case Nil
  show ?case by (simp add: fromEntries_Nil)
next
  case (snoc e kvs)
  obtain a v where e: "e = (a, v)" by (cases e)
  from snoc.prems have d: "distinct (map fst kvs)" and a: "a \<notin> fst ` set kvs" by (auto simp: e)
  have ih: "map_of (fromEntries (map (\<lambda>(a, v). (toCamel a, v)) kvs)) k = map_of kvs k"
    using snoc.IH d by simp
  have upd: "fromEntries (map (\<lambda>(a, v). (toCamel a, v)) (kvs @ [e]))
      = AList.update (toCamel a) v (fromEntries (map (\<lambda>(a, v). (toCamel a, v)) kvs))"
    by (simp add: e fromEntries_snoc)
  show ?case
  proof (cases "a = k")
    case True
    then have c: "toCamel a = k" using toCamel_lower_id[OF assms(2)] by simp
    from a True have n: "map_of kvs k = None" by (simp add: map_of_eq_None_iff)
    have "map_of (fromEntries (map (\<lambda>(a, v). (toCamel a, v)) (kvs @ [e]))) k = Some v"
      by (simp only: upd) (simp add: update_conv' c)
    moreover have "map_of (kvs @ [e]) k = Some v"
      by (simp add: e True n map_add_def)
    ultimately show ?thesis by simp
  next
    case False
    then have c: "toCamel a \<noteq> k" using toCamel_eq_lower[OF assms(2), of a] by simp
    have "map_of (fromEntries (map (\<lambda>(a, v). (toCamel a, v)) (kvs @ [e]))) k = map_of kvs k"
      using c ih by (simp only: upd) (simp add: update_conv')
    moreover have "map_of (kvs @ [e]) k = map_of kvs k"
      using False by (simp add: e map_add_def split: option.splits)
    ultimately show ?thesis by simp
  qed
qed

lemma index_keys_not_lower:
  assumes "k \<noteq> []" "\<forall>c \<in> set k. is_lower c"
  shows "k \<notin> fst ` set (map (\<lambda>(a, v). (toCamel a, v)) (zip (map show_nat is) vs))"
proof
  assume "k \<in> fst ` set (map (\<lambda>(a, v). (toCamel a, v)) (zip (map show_nat is) vs))"
  then obtain a v where av: "(a, v) \<in> set (zip (map show_nat is) vs)" and k: "toCamel a = k"
    by auto
  from av have "a \<in> set (map show_nat is)" by (rule set_zip_leftD)
  then obtain i where "a = show_nat i" by auto
  moreover from k have "a = k" using toCamel_eq_lower[OF assms(2)] by simp
  ultimately show False using show_nat_not_lower[OF assms] by metis
qed

lemma get_normalizeKeys:
  assumes "is_json raw" "k \<noteq> []" "\<forall>c \<in> set k. is_lower c"
  shows "get (normalizeKeys raw) k = get raw k"
proof (cases raw)
  case (Obj kvs)
  with assms(1) have "distinct (map fst kvs)" by simp
  then show ?thesis
    using map_of_fromEntries_camel[OF _ assms(3), of kvs]
    by (simp add: Obj normalizeKeys_def nullish_def)
next
  case (Arr xs)
  have "map_of (fromEntries (map (\<lambda>(a, v). (toCamel a, v)) (zip (map show_nat [0..<length xs]) xs))) k = None"
    using index_keys_not_lower[OF assms(2,3)] by (simp only: map_of_fromEntries_None not_False_eq_True)
  then show ?thesis by (simp add: Arr normalizeKeys_def nullish_def)
next
  case (Str s)
  have "map_of (fromEntries (map (\<lambda>(a, v). (toCamel a, v))
          (zip (map show_nat [0..<length s]) (map (\<lambda>c. Str [c]) s)))) k = None"
    using index_keys_not_lower[OF assms(2,3)] by (simp only: map_of_fromEntries_None not_False_eq_True)
  then show ?thesis by (simp add: Str normalizeKeys_def nullish_def)
qed (simp_all add: normalizeKeys_def nullish_def fromEntries_Nil)

lemma lower_meta: "\<forall>c \<in> set ''meta''. is_lower c" by (simp add: is_lower_def)
lemma lower_state: "\<forall>c \<in> set ''state''. is_lower c" by (simp add: is_lower_def)
lemma lower_status: "\<forall>c \<in> set ''status''. is_lower c" by (simp add: is_lower_def)
lemma lower_ready: "\<forall>c \<in> set ''ready''. is_lower c" by (simp add: is_lower_def)
lemma lower_successful: "\<forall>c \<in> set ''successful''. is_lower c" by (simp add: is_lower_def)

lemma is_json_get: "is_json v \<Longrightarrow> get v k \<noteq> Undefined \<Longrightarrow> is_json (get v k)"
proof (cases v)
  case (Obj kvs)
  assume j: "is_json v" and u: "get v k \<noteq> Undefined"
  from u obtain w where w: "map_of kvs k = Some w" by (auto simp: Obj split: option.splits)
  then have "(k, w) \<in> set kvs" by (rule map_of_SomeD)
  then have "w \<in> snd ` set kvs" by force
  with j show ?thesis by (auto simp: Obj w)
qed simp_all

lemma taskStatus_Inr:
  "taskStatus U S res = Inr r \<Longrightarrow> body_json res = Inr raw \<Longrightarrow> normalizeTaskStatus U raw = Inr r"
  by (auto simp: taskStatus_def requestJson_def Let_def split: if_splits option.splits sum.splits)

section \<open>Task status\<close>

lemma normalizeTaskStatus_fields:
  assumes "normalizeTaskStatus U raw = Inr r" "is_json raw"
  shows "\<exists>s. nullish (get raw ''state'') (nullish (get raw ''status'') (Str ''PENDING'')) = Str s
             \<and> state r = toUpperCase U s"
    and "meta r = (if truthy (get raw ''meta'')
                   then Obj (AList.update ''percent'' (bounded_percent (opt_get (get raw ''meta'') ''percent''))
                               (fromEntries (ownProps (get raw ''meta''))))
                   else Undefined)"
    and "ready r = truthy (get raw ''ready'')"
    and "successful r = truthy (get raw ''successful'')"
proof -
  note g = get_normalizeKeys[OF assms(2) _ lower_state] get_normalizeKeys[OF assms(2) _ lower_status]
     get_normalizeKeys[OF assms(2) _ lower_meta] get_normalizeKeys[OF assms(2) _ lower_ready]
     get_normalizeKeys[OF assms(2) _ lower_successful]
  from assms(1) show "\<exists>s. nullish (get raw ''state'') (nullish (get raw ''status'') (Str ''PENDING'')) = Str s
             \<and> state r = toUpperCase U s"
    by (auto simp: normalizeTaskStatus_def Let_def g split: jsval.splits)
  from assms(1) show "meta r = (if truthy (get raw ''meta'')
                   then Obj (AList.update ''percent'' (bounded_percent (opt_get (get raw ''meta'') ''percent''))
                               (fromEntries (ownProps (get raw ''meta''))))
                   else Undefined)"
    by (auto simp: normalizeTaskStatus_def Let_def g split: jsval.splits)
  from assms(1) show "ready r = truthy (get raw ''ready'')"
    by (auto simp: normalizeTaskStatus_def Let_def g split: jsval.splits)
  from assms(1) show "successful r = truthy (get raw ''successful'')"
    by (auto simp: normalizeTaskStatus_def Let_def g split: jsval.splits)
qed

text \<open>
  Claim C1, as stated: the \<^verbatim>\<open>state\<close> of the value returned by \<^verbatim>\<open>taskStatus\<close> is one of
  PENDING, RUNNING, SUCCESS, FAILED, CANCELLED, RETRY. It is not: on the payload of the test
  suite the state is STARTED, as that test expects.
\<close>

theorem taskStatus_state_counterexample:
  "taskStatus some_upper some_stringify (jsonResponse started_payload 200)
     = Inr \<lparr>id' = Str ''t-1'', state = ''STARTED'',
            meta = Obj [(''percent'', Num (Fin 100)), (''processed'', Num (Fin 5)),
                        (''total'', Num (Fin 10))],
            ready = False, successful = False, result = Undefined\<rparr>
   \<and> ''STARTED'' \<notin> set canonical_states"
  by code_simp

text \<open>
  Claim C1, amended: whenever \<^verbatim>\<open>taskStatus\<close> returns, \<^verbatim>\<open>state\<close> is the upper-cased text
  (\<^verbatim>\<open>toUpperCase()\<close>) of the payload's \<^verbatim>\<open>state\<close> field, or of its \<^verbatim>\<open>status\<close> field when
  \<^verbatim>\<open>state\<close> is absent or null, or PENDING when both are; for an ASCII text that is the text
  with its letters a to z in upper case.
\<close>

theorem taskStatus_state:
  assumes "taskStatus unicode_upper stringify res = Inr r" "body_json res = Inr raw" "is_json raw"
  shows "\<exists>s. nullish (get raw ''state'') (nullish (get raw ''status'') (Str ''PENDING'')) = Str s
             \<and> state r = toUpperCase unicode_upper s
             \<and> (is_ascii s \<longrightarrow> state r = map upper_char s)"
proof -
  from normalizeTaskStatus_fields(1)[OF taskStatus_Inr[OF assms(1,2)] assms(3)]
  obtain s where s: "nullish (get raw ''state'') (nullish (get raw ''status'') (Str ''PENDING'')) = Str s"
    and u: "state r = toUpperCase unicode_upper s" by blast
  from u have "is_ascii s \<longrightarrow> state r = map upper_char s" by (simp add: toUpperCase_def)
  with s u show ?thesis by blast
qed

lemma started_run:
  "taskStatus some_upper some_stringify (jsonResponse started_payload 200)
     = Inr \<lparr>id' = Str ''t-1'', state = ''STARTED'',
            meta = Obj [(''percent'', Num (Fin 100)), (''processed'', Num (Fin 5)),
                        (''total'', Num (Fin 10))],
            ready = False, successful = False, result = Undefined\<rparr>"
  by code_simp

lemma started_body: "body_json (jsonResponse started_payload 200) = Inr started_payload"
  by (simp add: jsonResponse_def)

lemma started_json: "is_json started_payload"
  by (simp add: started_payload_def)

theorem taskStatus_state_witness:
  "taskStatus some_upper some_stringify (jsonResponse started_payload 200)
     = Inr \<lparr>id' = Str ''t-1'', state = ''STARTED'',
            meta = Obj [(''percent'', Num (Fin 100)), (''processed'', Num (Fin 5)),
                        (''total'', Num (Fin 10))],
            ready = False, successful = False, result = Undefined\<rparr>
   \<and> body_json (jsonResponse started_payload 200) = Inr started_payload
   \<and> is_json started_payload
   \<and> nullish (get started_payload ''state'')
               (nullish (get started_payload ''status'') (Str ''PENDING'')) = Str ''started''
   \<and> is_ascii ''started''
   \<and> ''STARTED'' = map upper_char ''started''"
proof -
  have c: "nullish (get started_payload ''state'')
               (nullish (get started_payload ''status'') (Str ''PENDING'')) = Str ''started''"
    by (simp add: started_payload_def nullish_def)
  have a: "is_ascii ''started''" by (simp add: is_ascii_def)
  from taskStatus_state[OF started_run started_body started_json] c a
  have "state \<lparr>id' = Str ''t-1'', state = ''STARTED'',
            meta = Obj [(''percent'', Num (Fin 100)), (''processed'', Num (Fin 5)),
                        (''total'', Num (Fin 10))],
            ready = False, successful = False, result = Undefined\<rparr> = map upper_char ''started''"
    by auto
  then have "''STARTED'' = map upper_char ''started''" by (simp only: TaskStatusResp.simps)
  with started_run started_body started_json c a show ?thesis by (intro conjI)
qed

lemma bounded_percent_num:
  assumes "p \<noteq> NaN"
  shows "\<exists>q. bounded_percent (Num p) = Num (Fin q) \<and> 0 \<le> q \<and> q \<le> 100
           \<and> (\<forall>x. p = Fin x \<longrightarrow> q = max 0 (min 100 (of_int (round x))))
           \<and> (p = PosInf \<longrightarrow> q = 100) \<and> (p = NegInf \<longrightarrow> q = 0)"
proof (cases p)
  case (Fin x)
  then show ?thesis
    by (simp add: bounded_percent_def Math_max_def Math_min_def round_def min_def max_def)
qed (use assms in \<open>simp_all add: bounded_percent_def Math_max_def Math_min_def\<close>)

lemma get_percent_updated:
  "opt_get (Obj (AList.update ''percent'' b al)) ''percent'' = b"
  by (simp add: opt_get_def update_conv')

lemma opt_get_Num_cases:
  assumes "opt_get v k = Num p"
  shows "\<exists>kvs. v = Obj kvs \<and> get v k = Num p"
  using assms by (cases v) (simp_all add: opt_get_def)

text \<open>
  Claim C2. For every task-status payload whose \<^verbatim>\<open>meta.percent\<close> is a number \<open>p\<close>, the
  value returned by \<^verbatim>\<open>taskStatus\<close> has \<^verbatim>\<open>meta.percent\<close> equal to \<open>p\<close> rounded to the
  nearest integer and clamped to the interval from 0 to 100 (an infinite \<open>p\<close> goes to the
  bound on its side), so the returned percentage always lies between 0 and 100.
\<close>

theorem taskStatus_percent:
  assumes "taskStatus unicode_upper stringify res = Inr r" "body_json res = Inr raw" "is_json raw"
      and "opt_get (get raw ''meta'') ''percent'' = Num p"
  shows "\<exists>q. opt_get (meta r) ''percent'' = Num (Fin q) \<and> 0 \<le> q \<and> q \<le> 100
           \<and> (\<forall>x. p = Fin x \<longrightarrow> q = max 0 (min 100 (of_int (round x))))
           \<and> (p = PosInf \<longrightarrow> q = 100) \<and> (p = NegInf \<longrightarrow> q = 0)"
proof -
  from opt_get_Num_cases[OF assms(4)] obtain ms
    where ms: "get raw ''meta'' = Obj ms" and pc: "get (get raw ''meta'') ''percent'' = Num p"
    by blast
  from ms have "is_json (get raw ''meta'')" using is_json_get[OF assms(3), of "''meta''"] by simp
  then have "is_json (get (get raw ''meta'') ''percent'')"
    using is_json_get[of "get raw ''meta''" "''percent''"] pc by simp
  with pc have nn: "p \<noteq> NaN" by simp
  have "meta r = Obj (AList.update ''percent'' (bounded_percent (Num p)) (fromEntries (ownProps (get raw ''meta''))))"
    using normalizeTaskStatus_fields(2)[OF taskStatus_Inr[OF assms(1,2)] assms(3)] assms(4) ms
    by simp
  then have "opt_get (meta r) ''percent'' = bounded_percent (Num p)"
    by (simp only: get_percent_updated)
  with bounded_percent_num[OF nn] show ?thesis by simp
qed

lemma started_percent: "opt_get (get started_payload ''meta'') ''percent'' = Num (Fin 105)"
  by (simp add: started_payload_def opt_get_def)

theorem taskStatus_percent_witness:
  "taskStatus some_upper some_stringify (jsonResponse started_payload 200)
     = Inr \<lparr>id' = Str ''t-1'', state = ''STARTED'',
            meta = Obj [(''percent'', Num (Fin 100)), (''processed'', Num (Fin 5)),
                        (''total'', Num (Fin 10))],
            ready = False, successful = False, result = Undefined\<rparr>
   \<and> body_json (jsonResponse started_payload 200) = Inr started_payload
   \<and> is_json started_payload
   \<and> opt_get (get started_payload ''meta'') ''percent'' = Num (Fin 105)
   \<and> opt_get (Obj [(''percent'', Num (Fin 100)), (''processed'', Num (Fin 5)),
                    (''total'', Num (Fin 10))]) ''percent'' = Num (Fin 100)"
  using taskStatus_percent[OF started_run started_body started_json started_percent]
    started_run started_body started_json started_percent
  by simp

text \<open>
  Claim C3, as stated: \<^verbatim>\<open>successful\<close> is true only when \<^verbatim>\<open>state\<close> is SUCCESS, and
  \<^verbatim>\<open>ready\<close> only when \<^verbatim>\<open>state\<close> is SUCCESS, FAILED or CANCELLED. It is not so: a
  payload that says PENDING, ready and successful comes back with all three.
\<close>

theorem taskStatus_flags_counterexample:
  "taskStatus some_upper some_stringify (jsonResponse pending_payload 200)
     = Inr \<lparr>id' = Str [], state = ''PENDING'', meta = Undefined,
            ready = True, successful = True, result = Undefined\<rparr>
   \<and> ''PENDING'' \<noteq> ''SUCCESS'' \<and> ''PENDING'' \<notin> {''SUCCESS'', ''FAILED'', ''CANCELLED''}"
  by code_simp

text \<open>
  Claim C3, amended: for every value returned by \<^verbatim>\<open>taskStatus\<close>, \<^verbatim>\<open>successful\<close> is true
  exactly when the payload's \<^verbatim>\<open>successful\<close> field is truthy, and \<^verbatim>\<open>ready\<close> exactly when
  the payload's \<^verbatim>\<open>ready\<close> field is truthy.
\<close>

theorem taskStatus_flags:
  assumes "taskStatus unicode_upper stringify res = Inr r" "body_json res = Inr raw" "is_json raw"
  shows "successful r = truthy (get raw ''successful'') \<and> ready r = truthy (get raw ''ready'')"
  using normalizeTaskStatus_fields(3,4)[OF taskStatus_Inr[OF assms(1,2)] assms(3)] by simp

lemma pending_run:
  "taskStatus some_upper some_stringify (jsonResponse pending_payload 200)
     = Inr \<lparr>id' = Str [], state = ''PENDING'', meta = Undefined,
            ready = True, successful = True, result = Undefined\<rparr>"
  by code_simp

lemma pending_body: "body_json (jsonResponse pending_payload 200) = Inr pending_payload"
  by (simp add: jsonResponse_def)

lemma pending_json: "is_json pending_payload"
  by (simp add: pending_payload_def)

theorem taskStatus_flags_witness:
  "taskStatus some_upper some_stringify (jsonResponse pending_payload 200)
     = Inr \<lparr>id' = Str [], state = ''PENDING'', meta = Undefined,
            ready = True, successful = True, result = Undefined\<rparr>
   \<and> body_json (jsonResponse pending_payload 200) = Inr pending_payload
   \<and> is_json pending_payload
   \<and> truthy (get pending_payload ''successful'') \<and> truthy (get pending_payload ''ready'')"
  using taskStatus_flags[OF pending_run pending_body pending_json]
    pending_run pending_body pending_json
  by simp

lemma get_absent: "k \<notin> fst ` set (ownProps v) \<Longrightarrow> get v k = Undefined"
  by (cases v) (simp_all add: map_of_eq_None_iff[THEN iffD2])

lemma bounded_percent_not_num: "\<forall>x. v \<noteq> Num x \<Longrightarrow> bounded_percent v = Undefined"
  by (cases v) (simp_all add: bounded_percent_def)

text \<open>
  Claim C7. For every task-status payload that has no \<^verbatim>\<open>meta\<close> field, the value returned
  by \<^verbatim>\<open>taskStatus\<close> has \<^verbatim>\<open>meta\<close> undefined (not null); and when the payload's
  \<^verbatim>\<open>meta.percent\<close> is not a number, the returned \<^verbatim>\<open>meta?.percent\<close> is undefined (not
  null).
\<close>

theorem taskStatus_meta_undefined:
  assumes "taskStatus unicode_upper stringify res = Inr r" "body_json res = Inr raw" "is_json raw"
  shows "(''meta'' \<notin> fst ` set (ownProps raw) \<longrightarrow> meta r = Undefined)
       \<and> ((\<forall>x. opt_get (get raw ''meta'') ''percent'' \<noteq> Num x) \<longrightarrow>
            opt_get (meta r) ''percent'' = Undefined)"
proof (intro conjI impI)
  note m = normalizeTaskStatus_fields(2)[OF taskStatus_Inr[OF assms(1,2)] assms(3)]
  {
    assume "''meta'' \<notin> fst ` set (ownProps raw)"
    then have "get raw ''meta'' = Undefined" by (rule get_absent)
    with m show "meta r = Undefined" by simp
  next
    assume "\<forall>x. opt_get (get raw ''meta'') ''percent'' \<noteq> Num x"
    then have b: "bounded_percent (opt_get (get raw ''meta'') ''percent'') = Undefined"
      by (rule bounded_percent_not_num)
    show "opt_get (meta r) ''percent'' = Undefined"
    proof (cases "truthy (get raw ''meta'')")
      case True
      with m b have "meta r = Obj (AList.update ''percent'' Undefined (fromEntries (ownProps (get raw ''meta''))))"
        by simp
      then show ?thesis by (simp only: get_percent_updated)
    next
      case False
      with m show ?thesis by (simp add: opt_get_def)
    qed
  }
qed

lemma text_percent_run:
  "taskStatus some_upper some_stringify (jsonResponse text_percent_payload 200)
     = Inr \<lparr>id' = Str [], state = ''PROGRESS'', meta = Obj [(''percent'', Undefined)],
            ready = False, successful = False, result = Undefined\<rparr>"
  by code_simp

lemma text_percent_body:
  "body_json (jsonResponse text_percent_payload 200) = Inr text_percent_payload"
  by (simp add: jsonResponse_def)

lemma text_percent_json: "is_json text_percent_payload"
  by (simp add: text_percent_payload_def)

theorem taskStatus_meta_undefined_witness:
  "(''meta'' \<notin> fst ` set (ownProps pending_payload)
    \<and> taskStatus some_upper some_stringify (jsonResponse pending_payload 200)
        = Inr \<lparr>id' = Str [], state = ''PENDING'', meta = Undefined,
               ready = True, successful = True, result = Undefined\<rparr>)
   \<and> (opt_get (get text_percent_payload ''meta'') ''percent'' = Str ''50''
      \<and> taskStatus some_upper some_stringify (jsonResponse text_percent_payload 200)
        = Inr \<lparr>id' = Str [], state = ''PROGRESS'', meta = Obj [(''percent'', Undefined)],
               ready = False, successful = False, result = Undefined\<rparr>
      \<and> opt_get (Obj [(''percent'', Undefined)]) ''percent'' = Undefined)"
proof -
  have a: "''meta'' \<notin> fst ` set (ownProps pending_payload)"
    by (simp add: pending_payload_def)
  have b: "opt_get (get text_percent_payload ''meta'') ''percent'' = Str ''50''"
    by (simp add: text_percent_payload_def opt_get_def)
  then have c: "\<forall>x. opt_get (get text_percent_payload ''meta'') ''percent'' \<noteq> Num x"
    by simp
  from taskStatus_meta_undefined[OF text_percent_run text_percent_body text_percent_json] c
  have "opt_get (meta \<lparr>id' = Str [], state = ''PROGRESS'', meta = Obj [(''percent'', Undefined)],
               ready = False, successful = False, result = Undefined\<rparr>) ''percent'' = Undefined"
    by blast
  then have d: "opt_get (Obj [(''percent'', Undefined)]) ''percent'' = Undefined" by simp
  from a b d pending_run text_percent_run show ?thesis by simp
qed

section \<open>Map response\<close>

lemma toCamel_lower_head:
  assumes "toCamel s = c # rest" "is_lower c"
  shows "\<exists>s'. s = c # s' \<and> toCamel s' = rest"
proof (cases s)
  case Nil
  with assms(1) show ?thesis by simp
next
  case s: (Cons a t)
  show ?thesis
  proof (cases t)
    case Nil
    with s assms(1) show ?thesis by simp
  next
    case t: (Cons b cs)
    show ?thesis
    proof (cases "(a = CHR ''_'' \<or> a = CHR ''-'') \<and> is_word_char b")
      case True
      with assms(1) have "c = upper_char b" by (simp add: s t)
      with assms(2) True show ?thesis using upper_not_lower by blast
    next
      case False
      with assms(1) show ?thesis by (auto simp: s t)
    qed
  qed
qed

lemma upper_char_I: "upper_char b = CHR ''I'' \<Longrightarrow> b = CHR ''i'' \<or> b = CHR ''I''"
  unfolding upper_char_def by (simp split: if_splits)

lemma toCamel_Id:
  assumes "toCamel s = ''Id''"
  shows "s \<in> {''Id'', ''_id'', ''-id'', ''_Id'', ''-Id''}"
proof (cases s)
  case Nil
  with assms show ?thesis by simp
next
  case s: (Cons a t)
  show ?thesis
  proof (cases t)
    case Nil
    with s assms show ?thesis by simp
  next
    case t: (Cons b cs)
    have ld: "\<forall>c \<in> set ''d''. is_lower c" by (simp add: is_lower_def)
    show ?thesis
    proof (cases "(a = CHR ''_'' \<or> a = CHR ''-'') \<and> is_word_char b")
      case True
      with assms have u: "upper_char b = CHR ''I''" and d: "toCamel cs = ''d''"
        by (simp_all add: s t)
      from d have "cs = ''d''" using toCamel_eq_lower[OF ld] by simp
      moreover from u have "b = CHR ''i'' \<or> b = CHR ''I''" by (rule upper_char_I)
      ultimately show ?thesis using True by (auto simp: s t)
    next
      case False
      with assms have a: "a = CHR ''I''" and d: "toCamel (b # cs) = ''d''" by (auto simp: s t)
      from d have "b # cs = ''d''" using toCamel_eq_lower[OF ld] by simp
      with a show ?thesis by (simp add: s t)
    qed
  qed
qed

lemma toCamel_taskId:
  "(toCamel k = ''taskId'') = (k \<in> {''task_id'', ''task-id'', ''task_Id'', ''task-Id'', ''taskId''})"
proof
  assume a: "toCamel k = ''taskId''"
  have l: "is_lower CHR ''t''" "is_lower CHR ''a''" "is_lower CHR ''s''" "is_lower CHR ''k''"
    by (simp_all add: is_lower_def)
  from toCamel_lower_head[OF a l(1)] obtain s1 where s1: "k = CHR ''t'' # s1" "toCamel s1 = ''askId''" by auto
  from toCamel_lower_head[OF s1(2) l(2)] obtain s2 where s2: "s1 = CHR ''a'' # s2" "toCamel s2 = ''skId''" by auto
  from toCamel_lower_head[OF s2(2) l(3)] obtain s3 where s3: "s2 = CHR ''s'' # s3" "toCamel s3 = ''kId''" by auto
  from toCamel_lower_head[OF s3(2) l(4)] obtain s4 where s4: "s3 = CHR ''k'' # s4" "toCamel s4 = ''Id''" by auto
  from toCamel_Id[OF s4(2)] s1(1) s2(1) s3(1) s4(1)
  show "k \<in> {''task_id'', ''task-id'', ''task_Id'', ''task-Id'', ''taskId''}" by auto
next
  have c: "toCamel ''task_id'' = ''taskId''" "toCamel ''task-id'' = ''taskId''"
    "toCamel ''task_Id'' = ''taskId''" "toCamel ''task-Id'' = ''taskId''"
    "toCamel ''taskId'' = ''taskId''"
    by code_simp+
  assume "k \<in> {''task_id'', ''task-id'', ''task_Id'', ''task-Id'', ''taskId''}"
  then have "k = ''task_id'' \<or> k = ''task-id'' \<or> k = ''task_Id'' \<or> k = ''task-Id'' \<or> k = ''taskId''"
    by (simp only: insert_iff empty_iff simp_thms)
  then show "toCamel k = ''taskId''"
    by (elim disjE) (simp_all only: c)
qed

lemma toCamel_id: "(toCamel k = ''id'') = (k = ''id'')"
  by (rule toCamel_eq_lower) (simp add: is_lower_def)

lemma ownProps_nullish: "ownProps (nullish raw (Obj [])) = ownProps raw"
  by (cases raw) (simp_all add: nullish_def)

lemma taskId_names_iff: "(k \<in> taskId_names) = (toCamel k = ''taskId'')"
  by (simp only: taskId_names_def toCamel_taskId)

lemma last_field_Nil: "last_field P [] = Undefined"
  by (simp add: last_field_def)

lemma last_field_snoc: "last_field P (es @ [(k, v)]) = (if P k then v else last_field P es)"
  by (simp add: last_field_def)

lemma fromEntries_last_field:
  "(case map_of (fromEntries (map (\<lambda>(a, v). (toCamel a, v)) es)) k' of
      Some v \<Rightarrow> v | None \<Rightarrow> Undefined)
   = last_field (\<lambda>k. toCamel k = k') es"
proof (induction es rule: rev_induct)
  case Nil
  show ?case by (simp add: fromEntries_Nil last_field_Nil)
next
  case (snoc e es)
  obtain a w where e: "e = (a, w)" by (cases e)
  have "fromEntries (map (\<lambda>(a, v). (toCamel a, v)) (es @ [e]))
      = AList.update (toCamel a) w (fromEntries (map (\<lambda>(a, v). (toCamel a, v)) es))"
    by (simp add: e fromEntries_snoc)
  then show ?case using snoc by (simp add: e last_field_snoc update_conv')
qed

lemma get_normalizeKeys_last:
  "get (normalizeKeys raw) k' = last_field (\<lambda>k. toCamel k = k') (ownProps raw)"
  using fromEntries_last_field[where k' = k' and es = "ownProps raw"]
  by (simp add: normalizeKeys_def ownProps_nullish)

lemma last_field_mem:
  "last_field P es \<noteq> Undefined \<Longrightarrow> \<exists>k. P k \<and> (k, last_field P es) \<in> set es"
proof (induction es rule: rev_induct)
  case Nil
  then show ?case by (simp add: last_field_Nil)
next
  case (snoc e es)
  obtain a w where e: "e = (a, w)" by (cases e)
  show ?case
  proof (cases "P a")
    case True
    then show ?thesis by (auto simp: e last_field_snoc)
  next
    case False
    with snoc show ?thesis by (auto simp: e last_field_snoc)
  qed
qed

lemma last_field_none: "\<forall>k \<in> fst ` set es. \<not> P k \<Longrightarrow> last_field P es = Undefined"
  by (induction es rule: rev_induct) (auto simp: last_field_Nil last_field_snoc)

lemma last_field_single:
  assumes "distinct (map fst es)" "map_of es k = Some v" "P k"
      and "\<forall>k' \<in> fst ` set es. P k' \<longrightarrow> k' = k"
  shows "last_field P es = v"
  using assms(1,2,4)
proof (induction es rule: rev_induct)
  case Nil
  then show ?case by simp
next
  case (snoc e es)
  obtain a w where e: "e = (a, w)" by (cases e)
  from snoc.prems(1) have d: "distinct (map fst es)" and a: "a \<notin> fst ` set es" by (auto simp: e)
  show ?case
  proof (cases "a = k")
    case True
    from a True have "map_of es k = None" by (simp add: map_of_eq_None_iff)
    with snoc.prems(2) have "w = v" by (simp add: e True map_add_def)
    with assms(3) True show ?thesis by (simp add: e last_field_snoc)
  next
    case False
    with snoc.prems(3) have np: "\<not> P a" by (auto simp: e)
    from False snoc.prems(2) have m: "map_of es k = Some v"
      by (auto simp: e map_add_def split: option.splits)
    from snoc.prems(3) have "\<forall>k' \<in> fst ` set es. P k' \<longrightarrow> k' = k" by auto
    from snoc.IH[OF d m this] np show ?thesis by (simp add: e last_field_snoc)
  qed
qed

lemma last_field_nullish:
  "\<forall>(k, v) \<in> set es. P k \<longrightarrow> v = Undefined \<or> v = Null
   \<Longrightarrow> last_field P es = Undefined \<or> last_field P es = Null"
proof (induction es rule: rev_induct)
  case Nil
  show ?case by (simp add: last_field_Nil)
next
  case (snoc e es)
  obtain a w where e: "e = (a, w)" by (cases e)
  from snoc.prems have ih: "last_field P es = Undefined \<or> last_field P es = Null"
    by (intro snoc.IH) simp
  from snoc.prems have w: "P a \<longrightarrow> w = Undefined \<or> w = Null" by (simp add: e)
  show ?case
  proof (cases "P a")
    case True
    with w show ?thesis by (simp add: e last_field_snoc)
  next
    case False
    with ih show ?thesis by (simp add: e last_field_snoc)
  qed
qed

lemma get_Obj_entry:
  "distinct (map fst kvs) \<Longrightarrow> (k, v) \<in> set kvs \<Longrightarrow> get (Obj kvs) k = v"
  by simp

lemma json_field_present:
  assumes "is_json (Obj kvs)" "k \<in> fst ` set kvs"
  shows "get (Obj kvs) k \<noteq> Undefined"
proof -
  from assms(2) obtain v where v: "(k, v) \<in> set kvs" by auto
  with assms(1) have "is_json v" by auto
  moreover from assms(1) v have "get (Obj kvs) k = v" by simp
  ultimately show ?thesis by auto
qed

lemma truthy_not_empty: "truthy v \<Longrightarrow> v \<noteq> Str [] \<and> v \<noteq> Undefined \<and> v \<noteq> Null"
  by (cases v) simp_all

lemma get_defined_Obj: "get raw k \<noteq> Undefined \<Longrightarrow> \<exists>kvs. raw = Obj kvs"
  by (cases raw) simp_all

lemma mapColumns_ok:
  assumes "ok res" "body_json res = Inr raw"
  shows "mapColumns stringify res =
           (let t = nullish (last_field (\<lambda>k. k \<in> taskId_names) (ownProps raw))
                            (last_field (\<lambda>k. k = ''id'') (ownProps raw))
            in if truthy t then Inr \<lparr>taskId = t\<rparr> else Inl (Error ''Invalid map response''))"
  using assms
  by (simp add: mapColumns_def requestJson_def normalizeMap_def Let_def get_normalizeKeys_last
      taskId_names_iff toCamel_id)

text \<open>
  Claim C6, as stated: \<^verbatim>\<open>mapColumns\<close> draws the identifier from the payload's
  \<^verbatim>\<open>task_id\<close>/\<^verbatim>\<open>taskId\<close> field or else its \<^verbatim>\<open>id\<close> field, and throws
  'Invalid map response' when the payload contains none of these fields. It does not throw
  on \<^verbatim>\<open>{"task-id": "task-1"}\<close>, which has none of the three: \<open>toCamel\<close> turns kebab case
  into camel case too, and the call returns \<^verbatim>\<open>{taskId: "task-1"}\<close>.
\<close>

theorem mapColumns_counterexample:
  "mapColumns some_stringify (jsonResponse kebab_payload 200) = Inr \<lparr>taskId = Str ''task-1''\<rparr>
   \<and> get kebab_payload ''task_id'' = Undefined
   \<and> get kebab_payload ''taskId'' = Undefined
   \<and> get kebab_payload ''id'' = Undefined"
  by code_simp

text \<open>
  Claim C6, amended: for every successful response payload, \<^verbatim>\<open>mapColumns\<close> takes the
  value \<open>t\<close> of the payload's field named \<^verbatim>\<open>task_id\<close>, \<^verbatim>\<open>task-id\<close>, \<^verbatim>\<open>task_Id\<close>,
  \<^verbatim>\<open>task-Id\<close> or \<^verbatim>\<open>taskId\<close> (the last of them in the payload) or, when that is absent or
  null, of its \<^verbatim>\<open>id\<close> field; it returns \<^verbatim>\<open>{taskId: t}\<close> when \<open>t\<close> is truthy and throws
  'Invalid map response' otherwise, in particular when the payload contains none of these
  fields; it never returns an empty \<^verbatim>\<open>taskId\<close>. So a JSON payload with one such task
  field, holding a truthy value, gives that value, and one whose task fields are absent or
  null and whose \<^verbatim>\<open>id\<close> is truthy gives the \<^verbatim>\<open>id\<close>.
\<close>

theorem mapColumns_taskId:
  assumes "ok res" "body_json res = Inr raw"
  shows "mapColumns stringify res =
           (let t = nullish (last_field (\<lambda>k. k \<in> taskId_names) (ownProps raw))
                            (last_field (\<lambda>k. k = ''id'') (ownProps raw))
            in if truthy t then Inr \<lparr>taskId = t\<rparr> else Inl (Error ''Invalid map response''))
       \<and> (fst ` set (ownProps raw) \<inter> insert ''id'' taskId_names = {}
            \<longrightarrow> mapColumns stringify res = Inl (Error ''Invalid map response''))
       \<and> (\<forall>r. mapColumns stringify res = Inr r \<longrightarrow>
             taskId r \<noteq> Str []
           \<and> (\<exists>k \<in> insert ''id'' taskId_names. (k, taskId r) \<in> set (ownProps raw)))
       \<and> (is_json raw \<and> k \<in> taskId_names \<and> truthy (get raw k)
            \<and> (\<forall>k' \<in> taskId_names. k' \<noteq> k \<longrightarrow> get raw k' = Undefined)
            \<longrightarrow> mapColumns stringify res = Inr \<lparr>taskId = get raw k\<rparr>)
       \<and> (is_json raw \<and> (\<forall>k \<in> taskId_names. get raw k = Undefined \<or> get raw k = Null)
            \<and> truthy (get raw ''id'')
            \<longrightarrow> mapColumns stringify res = Inr \<lparr>taskId = get raw ''id''\<rparr>)"
proof (intro conjI impI allI)
  let ?a = "last_field (\<lambda>k. k \<in> taskId_names) (ownProps raw)"
  let ?b = "last_field (\<lambda>k. k = ''id'') (ownProps raw)"
  note m = mapColumns_ok[OF assms, of stringify]
  show "mapColumns stringify res =
           (let t = nullish ?a ?b
            in if truthy t then Inr \<lparr>taskId = t\<rparr> else Inl (Error ''Invalid map response''))"
    by (rule m)
  {
    assume "fst ` set (ownProps raw) \<inter> insert ''id'' taskId_names = {}"
    then have "\<forall>k \<in> fst ` set (ownProps raw). \<not> k \<in> taskId_names"
      and "\<forall>k \<in> fst ` set (ownProps raw). \<not> k = ''id''" by blast+
    then have "?a = Undefined" "?b = Undefined" by (simp_all only: last_field_none)
    then show "mapColumns stringify res = Inl (Error ''Invalid map response'')"
      by (simp add: m nullish_def)
  }
  {
    fix r
    assume r: "mapColumns stringify res = Inr r"
    with m have t: "truthy (nullish ?a ?b)" and e: "taskId r = nullish ?a ?b"
      by (auto simp: Let_def split: if_splits)
    from t have n: "nullish ?a ?b \<noteq> Str [] \<and> nullish ?a ?b \<noteq> Undefined \<and> nullish ?a ?b \<noteq> Null"
      by (rule truthy_not_empty)
    with e show "taskId r \<noteq> Str []" by simp
    show "\<exists>k \<in> insert ''id'' taskId_names. (k, taskId r) \<in> set (ownProps raw)"
    proof (cases "?a = Undefined \<or> ?a = Null")
      case True
      then have b: "nullish ?a ?b = ?b" by (auto simp: nullish_def)
      with n have "?b \<noteq> Undefined" by simp
      from last_field_mem[OF this] have "(''id'', ?b) \<in> set (ownProps raw)" by simp
      with e b show ?thesis by simp
    next
      case False
      then have a: "nullish ?a ?b = ?a" by (auto simp: nullish_def)
      from False have "?a \<noteq> Undefined" by simp
      from last_field_mem[OF this] obtain k where "k \<in> taskId_names" "(k, ?a) \<in> set (ownProps raw)"
        by blast
      with e a show ?thesis by auto
    qed
  }
  {
    assume h: "is_json raw \<and> k \<in> taskId_names \<and> truthy (get raw k)
            \<and> (\<forall>k' \<in> taskId_names. k' \<noteq> k \<longrightarrow> get raw k' = Undefined)"
    then have tv: "truthy (get raw k)" by simp
    then have nz: "get raw k \<noteq> Str [] \<and> get raw k \<noteq> Undefined \<and> get raw k \<noteq> Null"
      by (rule truthy_not_empty)
    then obtain kvs where raw: "raw = Obj kvs" using get_defined_Obj by blast
    from h raw have j: "is_json (Obj kvs)" and d: "distinct (map fst kvs)" by simp_all
    from nz have mk: "map_of kvs k = Some (get raw k)" by (auto simp: raw split: option.splits)
    have only: "\<forall>k' \<in> fst ` set kvs. k' \<in> taskId_names \<longrightarrow> k' = k"
    proof (intro ballI impI)
      fix k'
      assume p: "k' \<in> fst ` set kvs" and q: "k' \<in> taskId_names"
      show "k' = k"
      proof (rule ccontr)
        assume "k' \<noteq> k"
        with h q have "get raw k' = Undefined" by simp
        with json_field_present[OF j p] show False by (simp add: raw)
      qed
    qed
    from h have kin: "k \<in> taskId_names" by simp
    have "?a = get raw k"
      using last_field_single[OF d mk, of "\<lambda>k. k \<in> taskId_names", OF kin only] by (simp add: raw)
    with nz tv show "mapColumns stringify res = Inr \<lparr>taskId = get raw k\<rparr>"
      by (simp add: m nullish_def)
  }
  {
    assume h: "is_json raw \<and> (\<forall>k \<in> taskId_names. get raw k = Undefined \<or> get raw k = Null)
            \<and> truthy (get raw ''id'')"
    then have tv: "truthy (get raw ''id'')" by simp
    then have nz: "get raw ''id'' \<noteq> Str [] \<and> get raw ''id'' \<noteq> Undefined \<and> get raw ''id'' \<noteq> Null"
      by (rule truthy_not_empty)
    then obtain kvs where raw: "raw = Obj kvs" using get_defined_Obj by blast
    from h raw have d: "distinct (map fst kvs)" by simp
    from nz have mk: "map_of kvs ''id'' = Some (get raw ''id'')"
      by (auto simp: raw split: option.splits)
    have "?b = get raw ''id''"
      using last_field_single[OF d mk, of "\<lambda>k. k = ''id''"] by (simp add: raw)
    moreover have "w = Undefined \<or> w = Null" if "(k0, w) \<in> set kvs" "k0 \<in> taskId_names" for k0 w
    proof -
      from get_Obj_entry[OF d that(1)] have "get raw k0 = w" by (simp add: raw)
      with h that(2) show ?thesis by auto
    qed
    then have "\<forall>(k, v) \<in> set kvs. k \<in> taskId_names \<longrightarrow> v = Undefined \<or> v = Null"
      by auto
    then have "?a = Undefined \<or> ?a = Null"
      using last_field_nullish[of kvs "\<lambda>k. k \<in> taskId_names"] by (simp add: raw)
    ultimately show "mapColumns stringify res = Inr \<lparr>taskId = get raw ''id''\<rparr>"
      using tv nz by (auto simp: m nullish_def)
  }
qed

lemma json_response_ok: "ok (jsonResponse body 200)"
  by (simp add: ok_def jsonResponse_def)

lemma json_response_body: "body_json (jsonResponse body st) = Inr body"
  by (simp add: jsonResponse_def)

theorem mapColumns_taskId_witness:
  "(ok (jsonResponse map_payload 200)
    \<and> body_json (jsonResponse map_payload 200) = Inr map_payload
    \<and> is_json map_payload \<and> ''task_id'' \<in> taskId_names \<and> truthy (get map_payload ''task_id'')
    \<and> mapColumns some_stringify (jsonResponse map_payload 200) = Inr \<lparr>taskId = Str ''task-1''\<rparr>)
   \<and> mapColumns some_stringify (jsonResponse kebab_payload 200) = Inr \<lparr>taskId = Str ''task-1''\<rparr>
   \<and> (is_json id_payload \<and> truthy (get id_payload ''id'')
      \<and> mapColumns some_stringify (jsonResponse id_payload 200) = Inr \<lparr>taskId = Str ''task-2''\<rparr>)
   \<and> (fst ` set (ownProps no_task_payload) \<inter> insert ''id'' taskId_names = {}
      \<and> mapColumns some_stringify (jsonResponse no_task_payload 200)
          = Inl (Error ''Invalid map response''))"
proof -
  have j1: "is_json map_payload" by (simp add: map_payload_def)
  have n1: "''task_id'' \<in> taskId_names" by (simp add: taskId_names_def)
  have g1: "get map_payload ''task_id'' = Str ''task-1''" by (simp add: map_payload_def)
  then have t1: "truthy (get map_payload ''task_id'')" by simp
  have o1: "\<forall>k' \<in> taskId_names. k' \<noteq> ''task_id'' \<longrightarrow> get map_payload k' = Undefined"
    by (simp add: taskId_names_def map_payload_def)
  have r1: "mapColumns some_stringify (jsonResponse map_payload 200) = Inr \<lparr>taskId = Str ''task-1''\<rparr>"
    using mapColumns_taskId[where res = "jsonResponse map_payload 200" and raw = map_payload
        and stringify = some_stringify and k = "''task_id''",
        OF json_response_ok json_response_body,
        THEN conjunct2, THEN conjunct2, THEN conjunct2, THEN conjunct1]
      j1 n1 t1 o1 g1 by simp
  have r2: "mapColumns some_stringify (jsonResponse kebab_payload 200) = Inr \<lparr>taskId = Str ''task-1''\<rparr>"
    using mapColumns_taskId[where res = "jsonResponse kebab_payload 200" and raw = kebab_payload
        and stringify = some_stringify, OF json_response_ok json_response_body, THEN conjunct1]
    by (simp add: kebab_payload_def last_field_def taskId_names_def nullish_def)
  have j3: "is_json id_payload" by (simp add: id_payload_def)
  have g3: "get id_payload ''id'' = Str ''task-2''" by (simp add: id_payload_def)
  then have t3: "truthy (get id_payload ''id'')" by simp
  have o3: "\<forall>k \<in> taskId_names. get id_payload k = Undefined \<or> get id_payload k = Null"
    by (simp add: taskId_names_def id_payload_def)
  have r3: "mapColumns some_stringify (jsonResponse id_payload 200) = Inr \<lparr>taskId = Str ''task-2''\<rparr>"
    using mapColumns_taskId[where res = "jsonResponse id_payload 200" and raw = id_payload
        and stringify = some_stringify, OF json_response_ok json_response_body,
        THEN conjunct2, THEN conjunct2, THEN conjunct2, THEN conjunct2]
      j3 t3 o3 g3 by simp
  have e4: "fst ` set (ownProps no_task_payload) \<inter> insert ''id'' taskId_names = {}"
    by (simp add: no_task_payload_def taskId_names_def)
  have r4: "mapColumns some_stringify (jsonResponse no_task_payload 200)
          = Inl (Error ''Invalid map response'')"
    using mapColumns_taskId[where res = "jsonResponse no_task_payload 200" and raw = no_task_payload
        and stringify = some_stringify, OF json_response_ok json_response_body,
        THEN conjunct2, THEN conjunct1] e4 by simp
  from json_response_ok json_response_body j1 n1 t1 r1 r2 j3 t3 r3 e4 r4
  show ?thesis by (intro conjI)
qed

section \<open>Failed responses\<close>

lemma starts_with_iff: "starts_with s sub = (\<exists>after. s = sub @ after)"
  by (induction s sub rule: starts_with.induct) auto

lemma includes_str_occurs: "includes_str ct sub = occurs_in sub ct"
proof (induction ct)
  case Nil
  show ?case by (simp add: occurs_in_def)
next
  case (Cons c cs)
  have "occurs_in sub (c # cs) = ((\<exists>after. c # cs = sub @ after) \<or> occurs_in sub cs)"
  proof
    assume "occurs_in sub (c # cs)"
    then obtain b a where ba: "c # cs = b @ sub @ a" unfolding occurs_in_def by blast
    show "(\<exists>after. c # cs = sub @ after) \<or> occurs_in sub cs"
    proof (cases b)
      case Nil
      with ba show ?thesis by auto
    next
      case (Cons x b')
      with ba have "cs = b' @ sub @ a" by simp
      then show ?thesis unfolding occurs_in_def by blast
    qed
  next
    assume "(\<exists>after. c # cs = sub @ after) \<or> occurs_in sub cs"
    then show "occurs_in sub (c # cs)"
    proof
      assume "\<exists>after. c # cs = sub @ after"
      then obtain a where "c # cs = [] @ sub @ a" by auto
      then show ?thesis unfolding occurs_in_def by blast
    next
      assume "occurs_in sub cs"
      then obtain b a where "cs = b @ sub @ a" unfolding occurs_in_def by blast
      then have "c # cs = (c # b) @ sub @ a" by simp
      then show ?thesis unfolding occurs_in_def by blast
    qed
  qed
  with Cons show ?case by (simp add: starts_with_iff)
qed

lemma error_payload_json:
  "occurs_in ''application/json'' (ct_header res) \<Longrightarrow> body_json res = Inr v
   \<Longrightarrow> error_payload res = Inr v"
  by (simp add: error_payload_def includes_str_occurs)

lemma error_payload_unparsed:
  "occurs_in ''application/json'' (ct_header res) \<Longrightarrow> body_json res = Inl e
   \<Longrightarrow> error_payload res = Inr (Obj [])"
  by (simp add: error_payload_def includes_str_occurs)

lemma error_payload_text:
  "\<not> occurs_in ''application/json'' (ct_header res) \<Longrightarrow> body_text res = Inr t
   \<Longrightarrow> error_payload res = Inr (Str t)"
  by (simp add: error_payload_def includes_str_occurs)

lemma requestJson_failed:
  "\<not> ok res \<Longrightarrow> \<exists>e. requestJson stringify res = Inl e"
  by (auto simp: requestJson_def Let_def split: sum.splits)

lemma requestJson_api_error:
  "\<not> ok res \<Longrightarrow> error_payload res = Inr payload
   \<Longrightarrow> \<exists>msg. requestJson stringify res = Inl (ApiError msg (status res) payload)"
  by (simp add: requestJson_def Let_def)

lemma endpoints_propagate:
  assumes "requestJson stringify res = Inl e"
  shows "uploadFile stringify res = Inl e" "mapColumns stringify res = Inl e"
    "taskStatus unicode_upper stringify res = Inl e" "salarySummary conv stringify res = Inl e"
    "stackCompare conv stringify res = Inl e"
  using assms
  by (simp_all add: uploadFile_def mapColumns_def taskStatus_def salarySummary_def stackCompare_def)

lemma each_endpoint_throws_payload:
  assumes "\<not> ok res" "error_payload res = Inr payload"
  shows "each_endpoint_throws unicode_upper conv stringify res (status res) payload"
proof -
  from requestJson_api_error[OF assms] obtain msg
    where "requestJson stringify res = Inl (ApiError msg (status res) payload)" by blast
  from endpoints_propagate[OF this] show ?thesis
    by (simp add: each_endpoint_throws_def api_error_of_def)
qed

text \<open>
  Claim C8, as stated: for every response with a status outside 200 to 299, each endpoint
  throws an \<^verbatim>\<open>ApiError\<close> whose \<^verbatim>\<open>payload\<close> carries the parsed response body (JSON object
  or text). On a 502 whose content type says JSON and whose body is a page of markup the
  payload is the empty object: neither the body parsed, for it does not parse, nor its text.
\<close>

theorem failed_response_counterexample:
  "\<not> ok gateway_response
   \<and> api_error_of (uploadFile some_stringify gateway_response) = Some (502, Obj [])
   \<and> body_json gateway_response = Inl SyntaxError
   \<and> body_text gateway_response = Inr ''<html>''
   \<and> Obj [] \<noteq> Str ''<html>''"
  by code_simp

text \<open>
  Claim C8, amended: for every HTTP response with a status outside 200 to 299, none of
  \<^verbatim>\<open>uploadFile\<close>, \<^verbatim>\<open>mapColumns\<close>, \<^verbatim>\<open>taskStatus\<close>, \<^verbatim>\<open>salarySummary\<close> and
  \<^verbatim>\<open>stackCompare\<close> returns a value; and each throws an \<^verbatim>\<open>ApiError\<close> whose \<^verbatim>\<open>status\<close> is
  the status code of the response and whose \<^verbatim>\<open>payload\<close> is the parsed body when the content
  type contains \<^verbatim>\<open>application/json\<close> and the body parses, the empty object when the content
  type contains \<^verbatim>\<open>application/json\<close> and reading the body as JSON fails, and the text of
  the body when the content type does not contain \<^verbatim>\<open>application/json\<close> and the text is
  read to its end.
\<close>

theorem failed_response_throws:
  assumes "\<not> ok res"
  shows "(isl (uploadFile stringify res) \<and> isl (mapColumns stringify res)
          \<and> isl (taskStatus unicode_upper stringify res) \<and> isl (salarySummary conv stringify res)
          \<and> isl (stackCompare conv stringify res))
       \<and> (occurs_in ''application/json'' (ct_header res) \<and> body_json res = Inr v
            \<longrightarrow> each_endpoint_throws unicode_upper conv stringify res (status res) v)
       \<and> (occurs_in ''application/json'' (ct_header res) \<and> body_json res = Inl e
            \<longrightarrow> each_endpoint_throws unicode_upper conv stringify res (status res) (Obj []))
       \<and> (\<not> occurs_in ''application/json'' (ct_header res) \<and> body_text res = Inr t
            \<longrightarrow> each_endpoint_throws unicode_upper conv stringify res (status res) (Str t))"
proof (intro conjI impI)
  from requestJson_failed[OF assms] obtain x where x: "requestJson stringify res = Inl x" by blast
  note p = endpoints_propagate[OF x]
  show "isl (uploadFile stringify res)" by (simp add: p(1))
  show "isl (mapColumns stringify res)" by (simp add: p(2))
  show "isl (taskStatus unicode_upper stringify res)" by (simp add: p(3))
  show "isl (salarySummary conv stringify res)" by (simp add: p(4))
  show "isl (stackCompare conv stringify res)" by (simp add: p(5))
next
  assume "occurs_in ''application/json'' (ct_header res) \<and> body_json res = Inr v"
  then have "error_payload res = Inr v" by (simp add: error_payload_json)
  with assms show "each_endpoint_throws unicode_upper conv stringify res (status res) v"
    by (rule each_endpoint_throws_payload)
next
  assume "occurs_in ''application/json'' (ct_header res) \<and> body_json res = Inl e"
  then have "error_payload res = Inr (Obj [])" by (simp add: error_payload_unparsed)
  with assms show "each_endpoint_throws unicode_upper conv stringify res (status res) (Obj [])"
    by (rule each_endpoint_throws_payload)
next
  assume "\<not> occurs_in ''application/json'' (ct_header res) \<and> body_text res = Inr t"
  then have "error_payload res = Inr (Str t)" by (simp add: error_payload_text)
  with assms show "each_endpoint_throws unicode_upper conv stringify res (status res) (Str t)"
    by (rule each_endpoint_throws_payload)
qed

lemma occurs_json_type: "occurs_in ''application/json'' ''application/json''"
  unfolding includes_str_occurs[symmetric] by code_simp

lemma occurs_text_type: "\<not> occurs_in ''application/json'' ''text/plain''"
  unfolding includes_str_occurs[symmetric] by code_simp

theorem failed_response_throws_witness:
  "(\<not> ok (jsonResponse detail_payload 400)
    \<and> occurs_in ''application/json'' (ct_header (jsonResponse detail_payload 400))
    \<and> body_json (jsonResponse detail_payload 400) = Inr detail_payload
    \<and> each_endpoint_throws some_upper some_conv some_stringify
         (jsonResponse detail_payload 400) 400 detail_payload)
   \<and> (\<not> ok (textResponse ''boom'' 500)
    \<and> \<not> occurs_in ''application/json'' (ct_header (textResponse ''boom'' 500))
    \<and> body_text (textResponse ''boom'' 500) = Inr ''boom''
    \<and> each_endpoint_throws some_upper some_conv some_stringify
         (textResponse ''boom'' 500) 500 (Str ''boom''))
   \<and> (\<not> ok gateway_response
    \<and> occurs_in ''application/json'' (ct_header gateway_response)
    \<and> body_json gateway_response = Inl SyntaxError
    \<and> each_endpoint_throws some_upper some_conv some_stringify gateway_response 502 (Obj []))"
proof -
  have k1: "\<not> ok (jsonResponse detail_payload 400)" by (simp add: ok_def jsonResponse_def)
  have c1: "occurs_in ''application/json'' (ct_header (jsonResponse detail_payload 400))"
    using occurs_json_type by (simp add: ct_header_def jsonResponse_def)
  have b1: "body_json (jsonResponse detail_payload 400) = Inr detail_payload"
    by (simp add: jsonResponse_def)
  have s1: "status (jsonResponse detail_payload 400) = 400" by (simp add: jsonResponse_def)
  have r1: "each_endpoint_throws some_upper some_conv some_stringify
         (jsonResponse detail_payload 400) 400 detail_payload"
    using failed_response_throws[OF k1, of some_stringify some_upper some_conv detail_payload,
        THEN conjunct2, THEN conjunct1] c1 b1 by (simp add: s1)
  have k2: "\<not> ok (textResponse ''boom'' 500)" by (simp add: ok_def textResponse_def)
  have c2: "\<not> occurs_in ''application/json'' (ct_header (textResponse ''boom'' 500))"
    using occurs_text_type by (simp add: ct_header_def textResponse_def)
  have b2: "body_text (textResponse ''boom'' 500) = Inr ''boom''" by (simp add: textResponse_def)
  have s2: "status (textResponse ''boom'' 500) = 500" by (simp add: textResponse_def)
  have r2: "each_endpoint_throws some_upper some_conv some_stringify
         (textResponse ''boom'' 500) 500 (Str ''boom'')"
    using failed_response_throws[OF k2, of some_stringify some_upper some_conv _ _ "''boom''",
        THEN conjunct2, THEN conjunct2, THEN conjunct2] c2 b2 by (simp add: s2)
  have k3: "\<not> ok gateway_response" by (simp add: ok_def gateway_response_def)
  have c3: "occurs_in ''application/json'' (ct_header gateway_response)"
    using occurs_json_type by (simp add: ct_header_def gateway_response_def)
  have b3: "body_json gateway_response = Inl SyntaxError" by (simp add: gateway_response_def)
  have s3: "status gateway_response = 502" by (simp add: gateway_response_def)
  have r3: "each_endpoint_throws some_upper some_conv some_stringify gateway_response 502 (Obj [])"
    using failed_response_throws[OF k3, of some_stringify some_upper some_conv _ SyntaxError,
        THEN conjunct2, THEN conjunct2, THEN conjunct1] c3 b3 by (simp add: s3)
  from k1 c1 b1 r1 k2 c2 b2 r2 k3 c3 b3 r3 show ?thesis by (intro conjI)
qed

section \<open>Salary summary\<close>

lemma container_wrapped: "container (Obj [(''data'', Obj fs)]) = Obj fs"
  by (simp add: container_def opt_get_def nullish_def)

lemma container_flat:
  "get (Obj fs) ''data'' = Undefined \<or> get (Obj fs) ''data'' = Null
   \<Longrightarrow> container (Obj fs) = Obj fs"
  by (auto simp: container_def opt_get_def nullish_def)

lemma requestJson_ok: "ok res \<Longrightarrow> body_json res = Inr raw \<Longrightarrow> requestJson stringify res = Inr raw"
  by (simp add: requestJson_def)

lemma requestJson_Inr: "requestJson stringify res = Inr raw \<Longrightarrow> ok res \<and> body_json res = Inr raw"
  by (auto simp: requestJson_def Let_def split: if_splits option.splits sum.splits)

lemma num_absent: "num conv Undefined (Fin 0) = Inr (Fin 0)"
  by (simp add: num_def ToNumber_def nullish_def)

lemma num_Num: "num conv (Num m) fallback = Inr m"
  by (simp add: num_def)

lemma salarySummary_Inr:
  assumes "salarySummary conv stringify res = Inr r" "body_json res = Inr raw"
  shows "num conv (nullish (get (container raw) ''p50'') (get (container raw) ''median'')) (Fin 0) = Inr (p50 r)"
    and "num conv (get (container raw) ''p75'') (Fin 0) = Inr (p75 r)"
    and "num conv (get (container raw) ''p90'') (Fin 0) = Inr (p90 r)"
    and "num conv (nullish (get (container raw) ''n'') (get (container raw) ''count'')) (Fin 0) = Inr (n' r)"
proof -
  from assms(1) obtain raw' where "requestJson stringify res = Inr raw'"
    by (auto simp: salarySummary_def split: sum.splits)
  with assms(2) have rq: "requestJson stringify res = Inr raw"
    using requestJson_Inr by fastforce
  from assms(1) show "num conv (nullish (get (container raw) ''p50'') (get (container raw) ''median'')) (Fin 0) = Inr (p50 r)"
    by (auto simp: salarySummary_def rq Let_def split: sum.splits)
  from assms(1) show "num conv (get (container raw) ''p75'') (Fin 0) = Inr (p75 r)"
    by (auto simp: salarySummary_def rq Let_def split: sum.splits)
  from assms(1) show "num conv (get (container raw) ''p90'') (Fin 0) = Inr (p90 r)"
    by (auto simp: salarySummary_def rq Let_def split: sum.splits)
  from assms(1) show "num conv (nullish (get (container raw) ''n'') (get (container raw) ''count'')) (Fin 0) = Inr (n' r)"
    by (auto simp: salarySummary_def rq Let_def split: sum.splits)
qed

text \<open>
  Claim C10. \<^verbatim>\<open>salarySummary\<close> maps a payload whose fields are wrapped in a \<^verbatim>\<open>data\<close>
  object and the same fields given flat at the top level (so that there is no \<^verbatim>\<open>data\<close>
  among them) to equal results; when \<^verbatim>\<open>p50\<close> is absent it substitutes \<^verbatim>\<open>median\<close>, when
  \<^verbatim>\<open>n\<close> is absent it substitutes \<^verbatim>\<open>count\<close>, and each of \<^verbatim>\<open>p50\<close>, \<^verbatim>\<open>p75\<close>,
  \<^verbatim>\<open>p90\<close>, \<^verbatim>\<open>n\<close> is 0 when every field it is read from is absent.
\<close>

theorem salarySummary_shapes:
  "(ok res1 \<and> ok res2 \<and> body_json res1 = Inr (Obj [(''data'', Obj fs)])
      \<and> body_json res2 = Inr (Obj fs)
      \<and> (get (Obj fs) ''data'' = Undefined \<or> get (Obj fs) ''data'' = Null)
    \<longrightarrow> salarySummary conv stringify res1 = salarySummary conv stringify res2)
   \<and> (\<forall>r. body_json res = Inr raw \<and> salarySummary conv stringify res = Inr r \<longrightarrow>
        (get (container raw) ''p50'' = Undefined \<longrightarrow>
           Inr (p50 r) = num conv (get (container raw) ''median'') (Fin 0))
      \<and> (get (container raw) ''n'' = Undefined \<longrightarrow>
           Inr (n' r) = num conv (get (container raw) ''count'') (Fin 0))
      \<and> (\<forall>m. get (container raw) ''p50'' = Undefined \<and> get (container raw) ''median'' = Num m
             \<longrightarrow> p50 r = m)
      \<and> (\<forall>m. get (container raw) ''n'' = Undefined \<and> get (container raw) ''count'' = Num m
             \<longrightarrow> n' r = m)
      \<and> (get (container raw) ''p50'' = Undefined \<and> get (container raw) ''median'' = Undefined
             \<longrightarrow> p50 r = Fin 0)
      \<and> (get (container raw) ''p75'' = Undefined \<longrightarrow> p75 r = Fin 0)
      \<and> (get (container raw) ''p90'' = Undefined \<longrightarrow> p90 r = Fin 0)
      \<and> (get (container raw) ''n'' = Undefined \<and> get (container raw) ''count'' = Undefined
             \<longrightarrow> n' r = Fin 0))"
proof (intro conjI allI impI)
  assume a: "ok res1 \<and> ok res2 \<and> body_json res1 = Inr (Obj [(''data'', Obj fs)])
      \<and> body_json res2 = Inr (Obj fs)
      \<and> (get (Obj fs) ''data'' = Undefined \<or> get (Obj fs) ''data'' = Null)"
  then have 1: "requestJson stringify res1 = Inr (Obj [(''data'', Obj fs)])"
    and 2: "requestJson stringify res2 = Inr (Obj fs)"
    by (simp_all add: requestJson_ok)
  from a have c: "container (Obj fs) = Obj fs" by (intro container_flat) simp
  show "salarySummary conv stringify res1 = salarySummary conv stringify res2"
    by (simp add: salarySummary_def 1 2 container_wrapped c)
next
  fix r
  assume a: "body_json res = Inr raw \<and> salarySummary conv stringify res = Inr r"
  then have b: "body_json res = Inr raw" and s: "salarySummary conv stringify res = Inr r"
    by simp_all
  note f = salarySummary_Inr[OF s b]
  {
    assume "get (container raw) ''p50'' = Undefined"
    with f(1) show "Inr (p50 r) = num conv (get (container raw) ''median'') (Fin 0)"
      by (simp add: nullish_def)
  next
    assume "get (container raw) ''n'' = Undefined"
    with f(4) show "Inr (n' r) = num conv (get (container raw) ''count'') (Fin 0)"
      by (simp add: nullish_def)
  next
    fix m
    assume "get (container raw) ''p50'' = Undefined \<and> get (container raw) ''median'' = Num m"
    with f(1) show "p50 r = m" by (simp add: nullish_def num_Num)
  next
    fix m
    assume "get (container raw) ''n'' = Undefined \<and> get (container raw) ''count'' = Num m"
    with f(4) show "n' r = m" by (simp add: nullish_def num_Num)
  next
    assume "get (container raw) ''p50'' = Undefined \<and> get (container raw) ''median'' = Undefined"
    with f(1) show "p50 r = Fin 0" by (simp add: nullish_def num_absent)
  next
    assume "get (container raw) ''p75'' = Undefined"
    with f(2) show "p75 r = Fin 0" by (simp add: num_absent)
  next
    assume "get (container raw) ''p90'' = Undefined"
    with f(3) show "p90 r = Fin 0" by (simp add: num_absent)
  next
    assume "get (container raw) ''n'' = Undefined \<and> get (container raw) ''count'' = Undefined"
    with f(4) show "n' r = Fin 0" by (simp add: nullish_def num_absent)
  }
qed


lemma nested_wrapped_body:
  "body_json (jsonResponse (Obj [(''data'', Obj nested_summary_fields)]) 200)
     = Inr (Obj [(''data'', Obj nested_summary_fields)])"
  by (simp add: jsonResponse_def)

lemma nested_flat_body:
  "body_json (jsonResponse (Obj nested_summary_fields) 200) = Inr (Obj nested_summary_fields)"
  by (simp add: jsonResponse_def)

lemma nested_flat_run:
  "salarySummary some_conv some_stringify (jsonResponse (Obj nested_summary_fields) 200)
     = Inr \<lparr>p50 = Fin 50, p75 = Fin 70, p90 = Fin 90, n' = Fin 10\<rparr>"
  by code_simp

theorem salarySummary_shapes_witness:
  "(get (Obj nested_summary_fields) ''data'' = Undefined
    \<and> salarySummary some_conv some_stringify
          (jsonResponse (Obj [(''data'', Obj nested_summary_fields)]) 200)
        = salarySummary some_conv some_stringify (jsonResponse (Obj nested_summary_fields) 200))
   \<and> (salarySummary some_conv some_stringify (jsonResponse (Obj nested_summary_fields) 200)
        = Inr \<lparr>p50 = Fin 50, p75 = Fin 70, p90 = Fin 90, n' = Fin 10\<rparr>
      \<and> get (container (Obj nested_summary_fields)) ''p50'' = Undefined
      \<and> get (container (Obj nested_summary_fields)) ''median'' = Num (Fin 50)
      \<and> p50 \<lparr>p50 = Fin 50, p75 = Fin 70, p90 = Fin 90, n' = Fin 10\<rparr> = Fin 50)"
proof -
  have d: "get (Obj nested_summary_fields) ''data'' = Undefined"
    by (simp add: nested_summary_fields_def)
  have e: "salarySummary some_conv some_stringify
          (jsonResponse (Obj [(''data'', Obj nested_summary_fields)]) 200)
        = salarySummary some_conv some_stringify (jsonResponse (Obj nested_summary_fields) 200)"
    using salarySummary_shapes[THEN conjunct1, rule_format,
        of "jsonResponse (Obj [(''data'', Obj nested_summary_fields)]) 200"
           "jsonResponse (Obj nested_summary_fields) 200" nested_summary_fields]
      json_response_ok nested_wrapped_body nested_flat_body d
    by blast
  have a: "get (container (Obj nested_summary_fields)) ''p50'' = Undefined"
    and m: "get (container (Obj nested_summary_fields)) ''median'' = Num (Fin 50)"
    by (simp_all add: nested_summary_fields_def container_def opt_get_def nullish_def)
  have "p50 \<lparr>p50 = Fin 50, p75 = Fin 70, p90 = Fin 90, n' = Fin 10\<rparr> = Fin 50"
    using salarySummary_shapes[THEN conjunct2, rule_format, OF conjI[OF nested_flat_body nested_flat_run],
        THEN conjunct2, THEN conjunct2, THEN conjunct1, rule_format, OF conjI[OF a m]] .
  with d e a m nested_flat_run show ?thesis by (intro conjI)
qed

section \<open>Numeric fields\<close>

lemma num_finite:
  "finite_nonneg_or_absent v \<Longrightarrow> num conv v (Fin 0) = Inr x \<Longrightarrow> finite_nonneg x"
  by (cases v) (auto simp: finite_nonneg_or_absent_def finite_nonneg_def num_def ToNumber_def nullish_def)

lemma nullish_finite:
  "finite_nonneg_or_absent a \<Longrightarrow> finite_nonneg_or_absent b \<Longrightarrow> finite_nonneg_or_absent (nullish a b)"
  by (simp add: nullish_def)

lemma number_of_fields_finite:
  "finite_nonneg_or_absent a \<Longrightarrow> finite_nonneg_or_absent b
   \<Longrightarrow> number_of_fields conv a b = Inr x \<Longrightarrow> finite_nonneg x"
  by (cases a; cases b)
     (auto simp: finite_nonneg_or_absent_def finite_nonneg_def number_of_fields_def ToNumber_def nullish_def)

lemma map_err_Inr:
  "map_err f xs = Inr ys \<Longrightarrow> length ys = length xs \<and> (\<forall>i < length xs. f (xs ! i) = Inr (ys ! i))"
proof (induction xs arbitrary: ys)
  case Nil
  then show ?case by simp
next
  case (Cons x xs)
  from Cons.prems obtain y zs where y: "f x = Inr y" and zs: "map_err f xs = Inr zs" and ys: "ys = y # zs"
    by (auto split: sum.splits)
  from Cons.IH[OF zs] have "length zs = length xs" and "\<forall>i < length xs. f (xs ! i) = Inr (zs ! i)"
    by simp_all
  then show ?case using y ys by (auto simp: nth_Cons split: nat.splits)
qed

lemma stackCompare_row_Inr:
  assumes "stackCompare_row conv row = Inr y"
  shows "number_of_fields conv (get row ''p50'') (get row ''median'') = Inr (p50_row y)"
    and "number_of_fields conv (get row ''n'') (get row ''count'') = Inr (n_row y)"
  using assms by (auto simp: stackCompare_row_def Let_def split: if_splits sum.splits)

lemma stackCompare_Inr:
  assumes "stackCompare conv stringify res = Inr rows" "body_json res = Inr raw"
  shows "case maybeArr raw of Arr xs \<Rightarrow> map_err (stackCompare_row conv) xs = Inr rows
         | _ \<Rightarrow> rows = []"
proof -
  from assms(1) obtain raw' where "requestJson stringify res = Inr raw'"
    by (auto simp: stackCompare_def split: sum.splits)
  with assms(2) have rq: "requestJson stringify res = Inr raw"
    using requestJson_Inr by fastforce
  from assms(1) show ?thesis
    by (auto simp: stackCompare_def rq split: jsval.splits)
qed

text \<open>
  Claim C4, as stated: every numeric field of the values returned by \<^verbatim>\<open>salarySummary\<close> and
  \<^verbatim>\<open>stackCompare\<close> is a finite non-negative number. A number of the payload is passed on
  as it is, so a negative \<^verbatim>\<open>p50\<close> comes back negative.
\<close>

theorem numeric_fields_counterexample:
  "salarySummary some_conv some_stringify (jsonResponse negative_payload 200)
     = Inr \<lparr>p50 = Fin (- 5), p75 = Fin 70, p90 = Fin 90, n' = Fin 10\<rparr>
   \<and> \<not> finite_nonneg (Fin (- 5))"
  by code_simp

text \<open>
  Claim C4, amended: a numeric field (\<^verbatim>\<open>p50\<close>, \<^verbatim>\<open>p75\<close>, \<^verbatim>\<open>p90\<close>, \<^verbatim>\<open>n\<close>) of a value
  returned by \<^verbatim>\<open>salarySummary\<close> or \<^verbatim>\<open>stackCompare\<close> is a finite non-negative number
  whenever each payload field it is read from (\<^verbatim>\<open>p50\<close> and \<^verbatim>\<open>median\<close>, \<^verbatim>\<open>p75\<close>,
  \<^verbatim>\<open>p90\<close>, \<^verbatim>\<open>n\<close> and \<^verbatim>\<open>count\<close>) is a finite non-negative number, absent or null.
  \<^verbatim>\<open>stackCompare\<close> returns one row for each element of the array, and no row when there is
  no array.
\<close>

theorem numeric_fields_finite_nonneg:
  assumes "body_json res = Inr raw"
  shows "(\<forall>r. salarySummary conv stringify res = Inr r \<longrightarrow>
            (finite_nonneg_or_absent (get (container raw) ''p50'')
               \<and> finite_nonneg_or_absent (get (container raw) ''median'') \<longrightarrow> finite_nonneg (p50 r))
          \<and> (finite_nonneg_or_absent (get (container raw) ''p75'') \<longrightarrow> finite_nonneg (p75 r))
          \<and> (finite_nonneg_or_absent (get (container raw) ''p90'') \<longrightarrow> finite_nonneg (p90 r))
          \<and> (finite_nonneg_or_absent (get (container raw) ''n'')
               \<and> finite_nonneg_or_absent (get (container raw) ''count'') \<longrightarrow> finite_nonneg (n' r)))
       \<and> (\<forall>rows. stackCompare conv stringify res = Inr rows \<longrightarrow>
            (\<forall>xs. maybeArr raw = Arr xs \<longrightarrow>
               length rows = length xs
             \<and> (\<forall>i < length xs.
                  (finite_nonneg_or_absent (get (xs ! i) ''p50'')
                     \<and> finite_nonneg_or_absent (get (xs ! i) ''median'')
                     \<longrightarrow> finite_nonneg (p50_row (rows ! i)))
                \<and> (finite_nonneg_or_absent (get (xs ! i) ''n'')
                     \<and> finite_nonneg_or_absent (get (xs ! i) ''count'')
                     \<longrightarrow> finite_nonneg (n_row (rows ! i)))))
          \<and> ((\<forall>xs. maybeArr raw \<noteq> Arr xs) \<longrightarrow> rows = []))"
proof (intro conjI allI impI)
  fix r
  assume s: "salarySummary conv stringify res = Inr r"
  note f = salarySummary_Inr[OF s assms]
  {
    assume "finite_nonneg_or_absent (get (container raw) ''p50'')
               \<and> finite_nonneg_or_absent (get (container raw) ''median'')"
    then have "finite_nonneg_or_absent (nullish (get (container raw) ''p50'') (get (container raw) ''median''))"
      by (simp add: nullish_finite)
    then show "finite_nonneg (p50 r)" using f(1) by (rule num_finite)
  next
    assume "finite_nonneg_or_absent (get (container raw) ''p75'')"
    then show "finite_nonneg (p75 r)" using f(2) by (rule num_finite)
  next
    assume "finite_nonneg_or_absent (get (container raw) ''p90'')"
    then show "finite_nonneg (p90 r)" using f(3) by (rule num_finite)
  next
    assume "finite_nonneg_or_absent (get (container raw) ''n'')
               \<and> finite_nonneg_or_absent (get (container raw) ''count'')"
    then have "finite_nonneg_or_absent (nullish (get (container raw) ''n'') (get (container raw) ''count''))"
      by (simp add: nullish_finite)
    then show "finite_nonneg (n' r)" using f(4) by (rule num_finite)
  }
next
  fix rows xs
  assume s: "stackCompare conv stringify res = Inr rows" and m: "maybeArr raw = Arr xs"
  from stackCompare_Inr[OF s assms] m have e: "map_err (stackCompare_row conv) xs = Inr rows"
    by simp
  from map_err_Inr[OF e] show "length rows = length xs" by simp
  fix i
  assume i: "i < length xs"
  with map_err_Inr[OF e] have y: "stackCompare_row conv (xs ! i) = Inr (rows ! i)" by simp
  note g = stackCompare_row_Inr[OF y]
  {
    assume "finite_nonneg_or_absent (get (xs ! i) ''p50'')
                     \<and> finite_nonneg_or_absent (get (xs ! i) ''median'')"
    then show "finite_nonneg (p50_row (rows ! i))"
      using number_of_fields_finite[OF _ _ g(1)] by simp
  next
    assume "finite_nonneg_or_absent (get (xs ! i) ''n'')
                     \<and> finite_nonneg_or_absent (get (xs ! i) ''count'')"
    then show "finite_nonneg (n_row (rows ! i))"
      using number_of_fields_finite[OF _ _ g(2)] by simp
  }
next
  fix rows
  assume s: "stackCompare conv stringify res = Inr rows" and m: "\<forall>xs. maybeArr raw \<noteq> Arr xs"
  from stackCompare_Inr[OF s assms] m show "rows = []"
    by (cases "maybeArr raw") simp_all
qed


lemma compare_body: "body_json (jsonResponse compare_payload 200) = Inr compare_payload"
  by (simp add: jsonResponse_def)

lemma compare_run:
  "stackCompare some_conv some_stringify (jsonResponse compare_payload 200)
     = Inr [\<lparr>stack = ''react'', p50_row = Fin 50, n_row = Fin 10\<rparr>,
            \<lparr>stack = ''vue'', p50_row = Fin 45, n_row = Fin 8\<rparr>]"
  by code_simp

lemma compare_rows:
  "maybeArr compare_payload
     = Arr [Obj [(''stack'', Str ''react''), (''p50'', Num (Fin 50)), (''n'', Num (Fin 10))],
            Obj [(''tech'', Str ''vue''), (''median'', Num (Fin 45)), (''count'', Num (Fin 8))]]"
  by (simp add: compare_payload_def maybeArr_def opt_get_def nullish_def)

theorem numeric_fields_finite_nonneg_witness:
  "(body_json (jsonResponse (Obj nested_summary_fields) 200) = Inr (Obj nested_summary_fields)
    \<and> salarySummary some_conv some_stringify (jsonResponse (Obj nested_summary_fields) 200)
        = Inr \<lparr>p50 = Fin 50, p75 = Fin 70, p90 = Fin 90, n' = Fin 10\<rparr>
    \<and> finite_nonneg_or_absent (get (container (Obj nested_summary_fields)) ''p75'')
    \<and> finite_nonneg (Fin 70))
   \<and> (body_json (jsonResponse compare_payload 200) = Inr compare_payload
    \<and> stackCompare some_conv some_stringify (jsonResponse compare_payload 200)
        = Inr [\<lparr>stack = ''react'', p50_row = Fin 50, n_row = Fin 10\<rparr>,
               \<lparr>stack = ''vue'', p50_row = Fin 45, n_row = Fin 8\<rparr>]
    \<and> finite_nonneg_or_absent (get (Obj [(''tech'', Str ''vue''), (''median'', Num (Fin 45)),
                                            (''count'', Num (Fin 8))]) ''p50'')
    \<and> finite_nonneg_or_absent (get (Obj [(''tech'', Str ''vue''), (''median'', Num (Fin 45)),
                                            (''count'', Num (Fin 8))]) ''median'')
    \<and> finite_nonneg (Fin 45))"
proof -
  have a: "finite_nonneg_or_absent (get (container (Obj nested_summary_fields)) ''p75'')"
    by (simp add: nested_summary_fields_def container_def opt_get_def nullish_def
        finite_nonneg_or_absent_def finite_nonneg_def)
  have "finite_nonneg (p75 \<lparr>p50 = Fin 50, p75 = Fin 70, p90 = Fin 90, n' = Fin 10\<rparr>)"
    using numeric_fields_finite_nonneg[OF nested_flat_body, of some_conv some_stringify,
        THEN conjunct1, rule_format, OF nested_flat_run, THEN conjunct2, THEN conjunct1,
        rule_format, OF a] .
  then have b: "finite_nonneg (Fin 70)" by simp
  let ?vue = "Obj [(''tech'', Str ''vue''), (''median'', Num (Fin 45)), (''count'', Num (Fin 8))]"
  let ?xs = "[Obj [(''stack'', Str ''react''), (''p50'', Num (Fin 50)), (''n'', Num (Fin 10))], ?vue]"
  have c: "finite_nonneg_or_absent (get ?vue ''p50'')"
    and d: "finite_nonneg_or_absent (get ?vue ''median'')"
    by (simp_all add: finite_nonneg_or_absent_def finite_nonneg_def)
  have i: "(1::nat) < length ?xs" by simp
  have x: "?xs ! 1 = ?vue" by simp
  have "finite_nonneg (p50_row ([\<lparr>stack = ''react'', p50_row = Fin 50, n_row = Fin 10\<rparr>,
               \<lparr>stack = ''vue'', p50_row = Fin 45, n_row = Fin 8\<rparr>] ! 1))"
    using numeric_fields_finite_nonneg[OF compare_body, of some_conv some_stringify,
        THEN conjunct2, rule_format, OF compare_run, THEN conjunct1, rule_format, OF compare_rows,
        THEN conjunct2, rule_format, OF i, THEN conjunct1] c d
    unfolding x by blast
  then have e: "finite_nonneg (Fin 45)" by simp
  from nested_flat_body nested_flat_run a b compare_body compare_run c d e
  show ?thesis by (intro conjI)
qed

end
